theory Spec2Isabelle
  imports Main "HOL-Library.Word" "HOL-Library.Monad_Syntax"
begin

section \<open>The session object of \<open>src/core/session.c\<close>\<close>

text \<open>
  The embedding follows \<open>session.c\<close> function by function. Objects live in one memory,
  a map from addresses to objects; a C pointer is an address and \<open>NULL\<close> is \<open>None\<close>.
  Every function that dereferences a pointer returns an \<open>option\<close>: \<open>None\<close> stands for
  a call that does not complete normally (it reads through a pointer that does not point
  to an object of the expected kind, or it trips an assertion that the build has
  enabled). Locks are acquired and released around the critical sections of the source;
  a call is modelled as running alone, so they do not appear in the state.
\<close>

subsection \<open>Declarations the source relies on\<close>

type_synonym addr = nat
type_synonym uint8_t = "8 word"
type_synonym uint16_t = "16 word"
type_synonym uint32_t = "32 word"
type_synonym uint64_t = "64 word"
type_synonym HQUIC = "addr option"

text \<open>
  Modelled from the spec: the settings structure and the transport-parameters record are
  declared outside \<open>session.c\<close>; the session only copies them, so each is an opaque
  value. The status codes are the three that \<open>session.c\<close> returns.
\<close>

type_synonym QUIC_SETTINGS = nat
type_synonym QUIC_TRANSPORT_PARAMETERS = nat

datatype QUIC_STATUS =
  QUIC_STATUS_SUCCESS | QUIC_STATUS_OUT_OF_MEMORY | QUIC_STATUS_INVALID_PARAMETER

definition QUIC_FAILED :: "QUIC_STATUS \<Rightarrow> bool" where
  "QUIC_FAILED Status = (Status \<noteq> QUIC_STATUS_SUCCESS)"

text \<open>
  Modelled from the spec: the internal tag that distinguishes a session from the other
  handle-bearing entities, declared in the public header. \<open>session.c\<close> names the
  registration and the session tag; the others belong to listeners, connections and
  streams.
\<close>

datatype QUIC_HANDLE_TYPE =
  QUIC_HANDLE_TYPE_REGISTRATION | QUIC_HANDLE_TYPE_SESSION | QUIC_HANDLE_TYPE_LISTENER
  | QUIC_HANDLE_TYPE_CLIENT | QUIC_HANDLE_TYPE_CHILD | QUIC_HANDLE_TYPE_STREAM

text \<open>
  Modelled from the spec: the two constants are macros of the headers. \<open>QUIC_UINT62\<close> is
  an unsigned 64-bit integer and \<open>QUIC_UINT62_MAX\<close> bounds the protocol's permitted
  62-bit range; \<open>QUIC_CONNECTION_SHUTDOWN_FLAGS\<close> is a 32-bit flag set with a flag for a
  silent shutdown.
\<close>

definition QUIC_UINT62_MAX :: uint64_t where
  "QUIC_UINT62_MAX = 2 ^ 62 - 1"

definition QUIC_CONNECTION_SHUTDOWN_FLAG_SILENT :: uint32_t where
  "QUIC_CONNECTION_SHUTDOWN_FLAG_SILENT = 1"

text \<open>
  Modelled from the spec: the two assertion macros are platform macros. A failed
  assertion is fatal where the build compiles the macro in and has no effect where it
  compiles it out, so the build is a parameter of every function that asserts.
\<close>

record QUIC_BUILD =
  DebugAsserts :: bool
  TelemetryAsserts :: bool

definition QUIC_DBG_ASSERT :: "QUIC_BUILD \<Rightarrow> bool \<Rightarrow> unit option" where
  "QUIC_DBG_ASSERT b exp = (if DebugAsserts b \<and> \<not> exp then None else Some ())"

definition QUIC_TEL_ASSERT :: "QUIC_BUILD \<Rightarrow> bool \<Rightarrow> unit option" where
  "QUIC_TEL_ASSERT b exp = (if TelemetryAsserts b \<and> \<not> exp then None else Some ())"

subsection \<open>The draining guard\<close>

record QUIC_RUNDOWN_REF =
  RefCount :: int
  Draining :: bool

text \<open>
  Modelled from the spec: the rundown primitives (\<open>QuicRundownInitialize\<close>,
  \<open>QuicRundownAcquire\<close>, \<open>QuicRundownRelease\<close>, \<open>QuicRundownReleaseAndWait\<close>) are
  platform code outside \<open>session.c\<close>. Initialising sets the count to the object's own
  token; acquiring fails once draining has started and otherwise adds a token;
  releasing takes one away; release-and-wait starts draining, gives up the own token and
  waits for the count to reach zero. The wait is reported as a boolean: whether the
  count is zero already, so that the caller goes on without another thread's release.
\<close>

definition QuicRundownInitialize :: QUIC_RUNDOWN_REF where
  "QuicRundownInitialize = \<lparr>RefCount = 1, Draining = False\<rparr>"

definition QuicRundownAcquire :: "QUIC_RUNDOWN_REF \<Rightarrow> bool \<times> QUIC_RUNDOWN_REF" where
  "QuicRundownAcquire r =
     (if Draining r then (False, r) else (True, r\<lparr>RefCount := RefCount r + 1\<rparr>))"

definition QuicRundownRelease :: "QUIC_RUNDOWN_REF \<Rightarrow> QUIC_RUNDOWN_REF" where
  "QuicRundownRelease r = r\<lparr>RefCount := RefCount r - 1\<rparr>"

definition QuicRundownReleaseAndWait :: "QUIC_RUNDOWN_REF \<Rightarrow> bool \<times> QUIC_RUNDOWN_REF" where
  "QuicRundownReleaseAndWait r =
     (let r' = r\<lparr>Draining := True, RefCount := RefCount r - 1\<rparr>
      in (RefCount r' = 0, r'))"

subsection \<open>Intrusive lists\<close>

text \<open>
  Modelled from the spec: the list macros are platform code. A list head with its linked
  entries is the list of the addresses of the objects that embed the entries, in order.
  Inserting at the tail appends. Removing an entry that is not linked rewires through
  stale pointers, so it does not complete.
\<close>

definition QuicListInsertTail :: "addr list \<Rightarrow> addr \<Rightarrow> addr list" where
  "QuicListInsertTail l Entry = l @ [Entry]"

definition QuicListEntryRemove :: "addr list \<Rightarrow> addr \<Rightarrow> addr list option" where
  "QuicListEntryRemove l Entry = (if Entry \<in> set l then Some (remove1 Entry l) else None)"

definition QuicListIsEmpty :: "addr list \<Rightarrow> bool" where
  "QuicListIsEmpty l = (l = [])"

subsection \<open>Objects\<close>

datatype QUIC_OPERATION_TYPE = QUIC_OPER_TYPE_API_CALL | QUIC_OPER_TYPE_OTHER nat

datatype QUIC_API_TYPE = QUIC_API_TYPE_CONN_SHUTDOWN | QUIC_API_TYPE_OTHER nat

text \<open>
  The only API context a session fills in is a connection's \<open>BackupApiContext\<close>, and the
  only operation it queues is a connection's \<open>BackUpOper\<close>: pointers to them are modelled
  by their targets.
\<close>

datatype api_context_ptr = BackupApiContext_ptr

datatype operation_ptr = BackUpOper_ptr | Allocated_oper_ptr addr

record QUIC_API_CONTEXT =
  api_Type :: QUIC_API_TYPE
  CONN_SHUTDOWN_Flags :: uint32_t
  CONN_SHUTDOWN_ErrorCode :: uint64_t

record QUIC_OPERATION =
  FreeAfterProcess :: bool
  oper_Type :: QUIC_OPERATION_TYPE
  API_CALL_Context :: "api_context_ptr option"

record QUIC_CONNECTION =
  Type :: QUIC_HANDLE_TYPE
  Session :: "addr option"
  conn_Registration :: "addr option"
  conn_Settings :: QUIC_SETTINGS
  BackUpOperUsed :: uint16_t
  BackUpOper :: QUIC_OPERATION
  BackupApiContext :: QUIC_API_CONTEXT
  OperQ :: "operation_ptr list"

record QUIC_SERVER_CACHE =
  Signature :: uint32_t
  ServerName :: "uint8_t list"
  ServerNameLength :: uint16_t
  QuicVersion :: uint32_t
  TransportParameters :: QUIC_TRANSPORT_PARAMETERS
  SecConfig :: "addr option"

record QUIC_SESSION =
  ClientContext :: "addr option"
  Registration :: "addr option"
  Settings :: QUIC_SETTINGS
  Rundown :: QUIC_RUNDOWN_REF
  Connections :: "addr list"
  ServerCache :: "QUIC_SERVER_CACHE list"

record QUIC_REGISTRATION =
  Sessions :: "addr list"
  ConnectionRundown :: QUIC_RUNDOWN_REF

text \<open>
  A security configuration is a reference-counted object; only its count matters here.
  A registration and a session carry their handle tag in their constructor, a connection
  carries the tag of a client or of a child connection.
\<close>

datatype object =
  RegistrationObj QUIC_REGISTRATION
  | SessionObj QUIC_SESSION
  | ConnectionObj QUIC_CONNECTION
  | SecConfigObj int

type_synonym memory = "addr \<Rightarrow> object option"

definition get_registration :: "memory \<Rightarrow> addr \<Rightarrow> QUIC_REGISTRATION option" where
  "get_registration m a = (case m a of Some (RegistrationObj r) \<Rightarrow> Some r | _ \<Rightarrow> None)"

definition get_session :: "memory \<Rightarrow> addr \<Rightarrow> QUIC_SESSION option" where
  "get_session m a = (case m a of Some (SessionObj s) \<Rightarrow> Some s | _ \<Rightarrow> None)"

definition get_connection :: "memory \<Rightarrow> addr \<Rightarrow> QUIC_CONNECTION option" where
  "get_connection m a = (case m a of Some (ConnectionObj c) \<Rightarrow> Some c | _ \<Rightarrow> None)"

definition get_sec_config :: "memory \<Rightarrow> addr \<Rightarrow> int option" where
  "get_sec_config m a = (case m a of Some (SecConfigObj n) \<Rightarrow> Some n | _ \<Rightarrow> None)"

text \<open>\<open>Handle->Type\<close>: the tag of the object a handle points to.\<close>

definition Handle_Type :: "memory \<Rightarrow> addr \<Rightarrow> QUIC_HANDLE_TYPE option" where
  "Handle_Type m a =
     (case m a of
        Some (RegistrationObj r) \<Rightarrow> Some QUIC_HANDLE_TYPE_REGISTRATION
      | Some (SessionObj s) \<Rightarrow> Some QUIC_HANDLE_TYPE_SESSION
      | Some (ConnectionObj c) \<Rightarrow> Some (Type c)
      | _ \<Rightarrow> None)"

subsection \<open>Collaborators outside \<open>session.c\<close>\<close>

text \<open>
  Modelled from the spec: \<open>QuicTlsSecConfigAddRef\<close> and \<open>QuicTlsSecConfigRelease\<close> belong
  to the TLS layer. Adding a reference increments the count and hands the same pointer
  back; releasing decrements it. What the TLS layer does with a configuration whose
  count has reached zero is outside this model.
\<close>

definition QuicTlsSecConfigAddRef :: "addr \<Rightarrow> memory \<Rightarrow> memory option" where
  "QuicTlsSecConfigAddRef p m =
     do { n \<leftarrow> get_sec_config m p; Some (m(p \<mapsto> SecConfigObj (n + 1))) }"

definition QuicTlsSecConfigRelease :: "addr \<Rightarrow> memory \<Rightarrow> memory option" where
  "QuicTlsSecConfigRelease p m =
     do { n \<leftarrow> get_sec_config m p; Some (m(p \<mapsto> SecConfigObj (n - 1))) }"

text \<open>
  Modelled from the spec: \<open>QuicConnApplySettings\<close> hands the session's settings blob to
  the connection, and \<open>QuicConnQueueHighestPriorityOper\<close> puts an operation at the front
  of the connection's work queue. Both are connection code.
\<close>

definition QuicConnApplySettings :: "QUIC_CONNECTION \<Rightarrow> QUIC_SETTINGS \<Rightarrow> QUIC_CONNECTION" where
  "QuicConnApplySettings Connection s = Connection\<lparr>conn_Settings := s\<rparr>"

definition QuicConnQueueHighestPriorityOper ::
  "QUIC_CONNECTION \<Rightarrow> operation_ptr \<Rightarrow> QUIC_CONNECTION" where
  "QuicConnQueueHighestPriorityOper Connection Oper =
     Connection\<lparr>OperQ := Oper # OperQ Connection\<rparr>"

text \<open>
  \<open>InterlockedCompareExchange16 (Destination, Exchange, Comperand)\<close>: stores \<open>Exchange\<close>
  when the destination holds \<open>Comperand\<close>, and returns the value found. The result is the
  pair of the destination afterwards and the value returned.
\<close>

definition InterlockedCompareExchange16 ::
  "uint16_t \<Rightarrow> uint16_t \<Rightarrow> uint16_t \<Rightarrow> uint16_t \<times> uint16_t" where
  "InterlockedCompareExchange16 Destination Exchange Comperand =
     (if Destination = Comperand then Exchange else Destination, Destination)"

text \<open>
  A C string is the list of the bytes that follow the pointer in its buffer. \<open>strlen\<close>
  counts up to the first NUL byte and runs off a buffer that has none. \<open>memcmp\<close> over
  \<open>n\<close> bytes is zero exactly when the first \<open>n\<close> bytes agree (the source tests only
  that), and \<open>memcpy\<close> of \<open>n\<close> bytes copies the first \<open>n\<close> bytes.
\<close>

definition strlen :: "uint8_t list \<Rightarrow> nat option" where
  "strlen s = (if 0 \<in> set s then Some (length (takeWhile (\<lambda>c. c \<noteq> 0) s)) else None)"

definition memcmp :: "uint8_t list \<Rightarrow> uint8_t list \<Rightarrow> nat \<Rightarrow> int" where
  "memcmp a b n = (if take n a = take n b then 0 else 1)"

definition memcpy :: "uint8_t list \<Rightarrow> nat \<Rightarrow> uint8_t list" where
  "memcpy src n = take n src"

text \<open>
  \<open>QuicHashSimple (Length, Buffer)\<close> reads \<open>Length\<close> bytes of the buffer and runs off a
  shorter one. The function itself is library code: the hash \<open>H\<close> of the bytes read is a
  parameter of everything that hashes.
\<close>

definition QuicHashSimple ::
  "(uint8_t list \<Rightarrow> uint32_t) \<Rightarrow> uint16_t \<Rightarrow> uint8_t list \<Rightarrow> uint32_t option" where
  "QuicHashSimple H Length Buffer =
     (if unat Length \<le> length Buffer then Some (H (take (unat Length) Buffer)) else None)"

text \<open>
  Modelled from the spec: the hash table is library code. It holds the cache entries, each
  with the signature it was inserted under; the zeroed table of a new session is empty.
  \<open>QuicHashtableLookup\<close> followed by \<open>QuicHashtableLookupNext\<close> enumerates the chain of the
  entries with a given signature; an entry is named by its position in the table.
  \<open>QuicHashtableInsert\<close> links an entry under its signature.
\<close>

definition QuicHashtableLookup :: "QUIC_SERVER_CACHE list \<Rightarrow> uint32_t \<Rightarrow> nat list" where
  "QuicHashtableLookup Table Hash =
     filter (\<lambda>i. Signature (Table ! i) = Hash) [0..<length Table]"

definition QuicHashtableInsert ::
  "QUIC_SERVER_CACHE list \<Rightarrow> QUIC_SERVER_CACHE \<Rightarrow> uint32_t \<Rightarrow> QUIC_SERVER_CACHE list" where
  "QuicHashtableInsert Table Entry Hash = Entry\<lparr>Signature := Hash\<rparr> # Table"

subsection \<open>Allocation, release, open and close\<close>

text \<open>
  \<open>QuicSessionAlloc\<close>. \<open>Mem\<close> is what \<open>QUIC_ALLOC_NONPAGED\<close> returns: \<open>None\<close> when the
  allocation fails, the address of the new block otherwise. The block is zeroed and
  then initialised. The result is the status, the pointer stored through \<open>NewSession\<close>
  (nothing is stored on failure) and the memory.
\<close>

definition QuicSessionAlloc ::
  "addr option \<Rightarrow> addr option \<Rightarrow> addr option \<Rightarrow> memory
     \<Rightarrow> QUIC_STATUS \<times> addr option \<times> memory" where
  "QuicSessionAlloc Mem Registration' Context m =
     (case Mem of
        None \<Rightarrow> (QUIC_STATUS_OUT_OF_MEMORY, None, m)
      | Some Session' \<Rightarrow>
          (QUIC_STATUS_SUCCESS, Some Session',
           m(Session' \<mapsto> SessionObj
               \<lparr>ClientContext = Context,
                Registration = Registration',
                Settings = 0,
                Rundown = QuicRundownInitialize,
                Connections = [],
                ServerCache = []\<rparr>)))"

text \<open>\<open>MsQuicSessionFree\<close>: asserts that no connection is left, then frees the block.\<close>

definition MsQuicSessionFree :: "QUIC_BUILD \<Rightarrow> addr \<Rightarrow> memory \<Rightarrow> memory option" where
  "MsQuicSessionFree b Session' m =
     do {
       s \<leftarrow> get_session m Session';
       _ \<leftarrow> QUIC_TEL_ASSERT b (QuicListIsEmpty (Connections s));
       Some (m(Session' := None))
     }"

text \<open>
  \<open>MsQuicSessionOpen\<close>. \<open>NewSession\<close> is the caller's output location (\<open>None\<close> for a
  null pointer). The result is the status, the handle written to the output location
  (\<open>None\<close> when nothing is written) and the memory. The code after the \<open>Error\<close> label
  frees a session that was allocated and not handed out.
\<close>

definition MsQuicSessionOpen_Error ::
  "QUIC_BUILD \<Rightarrow> QUIC_STATUS \<Rightarrow> addr option \<Rightarrow> HQUIC \<Rightarrow> memory
     \<Rightarrow> (QUIC_STATUS \<times> HQUIC \<times> memory) option" where
  "MsQuicSessionOpen_Error b Status Session' Out m =
     (case Session' of
        None \<Rightarrow> Some (Status, Out, m)
      | Some s \<Rightarrow> do { m' \<leftarrow> MsQuicSessionFree b s m; Some (Status, Out, m') })"

definition MsQuicSessionOpen ::
  "QUIC_BUILD \<Rightarrow> addr option \<Rightarrow> HQUIC \<Rightarrow> addr option \<Rightarrow> addr option \<Rightarrow> memory
     \<Rightarrow> (QUIC_STATUS \<times> HQUIC \<times> memory) option" where
  "MsQuicSessionOpen b Mem RegistrationContext Context NewSession m =
     (case RegistrationContext of
        None \<Rightarrow> MsQuicSessionOpen_Error b QUIC_STATUS_INVALID_PARAMETER None None m
      | Some r \<Rightarrow>
          do {
            t \<leftarrow> Handle_Type m r;
            if t \<noteq> QUIC_HANDLE_TYPE_REGISTRATION \<or> NewSession = None
            then MsQuicSessionOpen_Error b QUIC_STATUS_INVALID_PARAMETER None None m
            else
              (case QuicSessionAlloc Mem (Some r) Context m of
                 (Status, Session', m1) \<Rightarrow>
                   if QUIC_FAILED Status
                   then MsQuicSessionOpen_Error b Status Session' None m1
                   else
                     do {
                       a \<leftarrow> Session';
                       s \<leftarrow> get_session m1 a;
                       ra \<leftarrow> Registration s;
                       reg \<leftarrow> get_registration m1 ra;
                       let m2 = m1(ra \<mapsto> RegistrationObj
                                  (reg\<lparr>Sessions := QuicListInsertTail (Sessions reg) a\<rparr>));
                       MsQuicSessionOpen_Error b Status None (Some a) m2
                     })
          })"

subsection \<open>The shutdown broadcaster\<close>

text \<open>
  The body of the loop of \<open>MsQuicSessionShutdown\<close> for one connection: the
  compare-and-set of \<open>BackUpOperUsed\<close> from 0 to 1 and, when it returns 0, the filling
  of \<open>BackUpOper\<close> and \<open>BackupApiContext\<close> and the queueing of the operation.
\<close>

definition shutdown_connection ::
  "uint32_t \<Rightarrow> uint64_t \<Rightarrow> QUIC_CONNECTION \<Rightarrow> QUIC_CONNECTION" where
  "shutdown_connection Flags ErrorCode Connection =
     (case InterlockedCompareExchange16 (BackUpOperUsed Connection) 1 0 of
        (Used, Found) \<Rightarrow>
          let Connection = Connection\<lparr>BackUpOperUsed := Used\<rparr> in
          if Found = 0 then
            QuicConnQueueHighestPriorityOper
              (Connection
                 \<lparr>BackUpOper :=
                    \<lparr>FreeAfterProcess = False,
                     oper_Type = QUIC_OPER_TYPE_API_CALL,
                     API_CALL_Context = Some BackupApiContext_ptr\<rparr>,
                  BackupApiContext :=
                    \<lparr>api_Type = QUIC_API_TYPE_CONN_SHUTDOWN,
                     CONN_SHUTDOWN_Flags = Flags,
                     CONN_SHUTDOWN_ErrorCode = ErrorCode\<rparr>\<rparr>)
              BackUpOper_ptr
          else Connection)"

text \<open>The walk over \<open>Session->Connections\<close>, from \<open>Flink\<close> to \<open>Flink\<close>.\<close>

fun shutdown_walk :: "addr list \<Rightarrow> uint32_t \<Rightarrow> uint64_t \<Rightarrow> memory \<Rightarrow> memory option" where
  "shutdown_walk [] Flags ErrorCode m = Some m"
| "shutdown_walk (Entry # rest) Flags ErrorCode m =
     do {
       Connection \<leftarrow> get_connection m Entry;
       shutdown_walk rest Flags ErrorCode
         (m(Entry \<mapsto> ConnectionObj (shutdown_connection Flags ErrorCode Connection)))
     }"

definition MsQuicSessionShutdown ::
  "QUIC_BUILD \<Rightarrow> HQUIC \<Rightarrow> uint32_t \<Rightarrow> uint64_t \<Rightarrow> memory \<Rightarrow> memory option" where
  "MsQuicSessionShutdown b Handle Flags ErrorCode m =
     do {
       _ \<leftarrow> QUIC_DBG_ASSERT b (Handle \<noteq> None);
       _ \<leftarrow> QUIC_DBG_ASSERT b
              (Option.bind Handle (Handle_Type m) = Some QUIC_HANDLE_TYPE_SESSION);
       if ErrorCode > QUIC_UINT62_MAX then Some m
       else
         (case Handle of
            None \<Rightarrow> Some m
          | Some h \<Rightarrow>
              do {
                t \<leftarrow> Handle_Type m h;
                if t = QUIC_HANDLE_TYPE_SESSION
                then do {
                  s \<leftarrow> get_session m h;
                  shutdown_walk (Connections s) Flags ErrorCode m
                }
                else Some m
              })
     }"

text \<open>
  \<open>MsQuicSessionClose\<close>. The call either returns or stays in
  \<open>QuicRundownReleaseAndWait\<close> until other threads release their tokens; both outcomes
  carry the memory reached.
\<close>

datatype close_outcome = Returned memory | Waiting memory

definition MsQuicSessionClose :: "QUIC_BUILD \<Rightarrow> HQUIC \<Rightarrow> memory \<Rightarrow> close_outcome option" where
  "MsQuicSessionClose b Handle m =
     (case Handle of
        None \<Rightarrow> Some (Returned m)
      | Some h \<Rightarrow>
          do {
            t \<leftarrow> Handle_Type m h;
            _ \<leftarrow> QUIC_TEL_ASSERT b (t = QUIC_HANDLE_TYPE_SESSION);
            if t \<noteq> QUIC_HANDLE_TYPE_SESSION then Some (Returned m)
            else do {
              s \<leftarrow> get_session m h;
              m1 \<leftarrow>
                (case Registration s of
                   Some r \<Rightarrow>
                     do {
                       reg \<leftarrow> get_registration m r;
                       l \<leftarrow> QuicListEntryRemove (Sessions reg) h;
                       Some (m(r \<mapsto> RegistrationObj (reg\<lparr>Sessions := l\<rparr>)))
                     }
                 | None \<Rightarrow>
                     MsQuicSessionShutdown b Handle QUIC_CONNECTION_SHUTDOWN_FLAG_SILENT 0 m);
              s1 \<leftarrow> get_session m1 h;
              (case QuicRundownReleaseAndWait (Rundown s1) of
                 (Drained, rd) \<Rightarrow>
                   let m2 = m1(h \<mapsto> SessionObj (s1\<lparr>Rundown := rd\<rparr>)) in
                   if Drained
                   then do { m3 \<leftarrow> MsQuicSessionFree b h m2; Some (Returned m3) }
                   else Some (Waiting m2))
            }
          })"

subsection \<open>The membership registry\<close>

definition QuicSessionUnregisterConnection :: "addr \<Rightarrow> memory \<Rightarrow> memory option" where
  "QuicSessionUnregisterConnection Connection m =
     do {
       c \<leftarrow> get_connection m Connection;
       (case Session c of
          None \<Rightarrow> Some m
        | Some Session' \<Rightarrow>
            do {
              let m1 = m(Connection \<mapsto> ConnectionObj (c\<lparr>Session := None\<rparr>));
              s \<leftarrow> get_session m1 Session';
              l \<leftarrow> QuicListEntryRemove (Connections s) Connection;
              Some (m1(Session' \<mapsto> SessionObj
                         (s\<lparr>Connections := l,
                            Rundown := QuicRundownRelease (Rundown s)\<rparr>)))
            })
     }"

definition QuicSessionRegisterConnection ::
  "QUIC_BUILD \<Rightarrow> addr \<Rightarrow> addr \<Rightarrow> memory \<Rightarrow> memory option" where
  "QuicSessionRegisterConnection b Session' Connection m =
     do {
       m1 \<leftarrow> QuicSessionUnregisterConnection Connection m;
       c \<leftarrow> get_connection m1 Connection;
       let m2 = m1(Connection \<mapsto> ConnectionObj (c\<lparr>Session := Some Session'\<rparr>));
       s \<leftarrow> get_session m2 Session';
       m3 \<leftarrow>
         (case Registration s of
            None \<Rightarrow> Some m2
          | Some r \<Rightarrow>
              do {
                c2 \<leftarrow> get_connection m2 Connection;
                let m2a = m2(Connection \<mapsto> ConnectionObj (c2\<lparr>conn_Registration := Some r\<rparr>));
                reg \<leftarrow> get_registration m2a r;
                let m2b = m2a(r \<mapsto> RegistrationObj
                    (reg\<lparr>ConnectionRundown := snd (QuicRundownAcquire (ConnectionRundown reg))\<rparr>));
                c3 \<leftarrow> get_connection m2b Connection;
                Some (m2b(Connection \<mapsto> ConnectionObj (QuicConnApplySettings c3 (Settings s))))
              });
       s3 \<leftarrow> get_session m3 Session';
       (case QuicRundownAcquire (Rundown s3) of
          (Success, rd) \<Rightarrow>
            do {
              let m4 = m3(Session' \<mapsto> SessionObj (s3\<lparr>Rundown := rd\<rparr>));
              _ \<leftarrow> QUIC_DBG_ASSERT b Success;
              s4 \<leftarrow> get_session m4 Session';
              Some (m4(Session' \<mapsto> SessionObj
                         (s4\<lparr>Connections := QuicListInsertTail (Connections s4) Connection\<rparr>)))
            })
     }"

subsection \<open>The server cache\<close>

text \<open>
  \<open>QuicSessionServerCacheLookup\<close>: the scan of the chain of the entries with the
  signature \<open>Hash\<close>, comparing length and bytes. The caller holds the lock and has
  dereferenced the session. The result names the entry found by its position.
\<close>

fun chain_scan ::
  "QUIC_SERVER_CACHE list \<Rightarrow> nat list \<Rightarrow> uint16_t \<Rightarrow> uint8_t list \<Rightarrow> nat option" where
  "chain_scan Table [] ServerNameLength' ServerName' = None"
| "chain_scan Table (Entry # rest) ServerNameLength' ServerName' =
     (let Temp = Table ! Entry in
      if ServerNameLength Temp = ServerNameLength' \<and>
         memcmp (ServerName Temp) ServerName' (unat ServerNameLength') = 0
      then Some Entry
      else chain_scan Table rest ServerNameLength' ServerName')"

definition QuicSessionServerCacheLookup ::
  "QUIC_SESSION \<Rightarrow> uint16_t \<Rightarrow> uint8_t list \<Rightarrow> uint32_t \<Rightarrow> nat option" where
  "QuicSessionServerCacheLookup s ServerNameLength' ServerName' Hash =
     chain_scan (ServerCache s) (QuicHashtableLookup (ServerCache s) Hash)
       ServerNameLength' ServerName'"

text \<open>
  \<open>QuicSessionServerCacheGetState\<close>. The result pairs what the call hands out with the
  memory: \<open>None\<close> for \<open>FALSE\<close> (the output locations are not written), and for \<open>TRUE\<close>
  the version, the parameters and the security configuration pointer.
\<close>

definition QuicSessionServerCacheGetState ::
  "(uint8_t list \<Rightarrow> uint32_t) \<Rightarrow> addr \<Rightarrow> uint8_t list \<Rightarrow> memory
     \<Rightarrow> ((uint32_t \<times> QUIC_TRANSPORT_PARAMETERS \<times> addr option) option \<times> memory) option" where
  "QuicSessionServerCacheGetState H Session' ServerName' m =
     do {
       n \<leftarrow> strlen ServerName';
       let ServerNameLength' = (word_of_nat n :: uint16_t);
       Hash \<leftarrow> QuicHashSimple H ServerNameLength' ServerName';
       s \<leftarrow> get_session m Session';
       (case QuicSessionServerCacheLookup s ServerNameLength' ServerName' Hash of
          None \<Rightarrow> Some (None, m)
        | Some i \<Rightarrow>
            let Cache = ServerCache s ! i in
            (case SecConfig Cache of
               Some p \<Rightarrow>
                 do {
                   m' \<leftarrow> QuicTlsSecConfigAddRef p m;
                   Some (Some (QuicVersion Cache, TransportParameters Cache, Some p), m')
                 }
             | None \<Rightarrow>
                 Some (Some (QuicVersion Cache, TransportParameters Cache, None), m)))
     }"

text \<open>
  \<open>QuicSessionServerCacheSetStateInternal\<close>. \<open>Mem\<close> is what \<open>QUIC_ALLOC_PAGED\<close> returns
  when the entry is new: \<open>None\<close> when the allocation fails, otherwise the block as the
  allocator hands it out, with whatever its fields hold. The source then writes the
  name, the length, the version and the parameters, and writes \<open>SecConfig\<close> only when
  one is supplied.
\<close>

definition QuicSessionServerCacheSetStateInternal ::
  "(uint8_t list \<Rightarrow> uint32_t) \<Rightarrow> QUIC_SERVER_CACHE option \<Rightarrow> addr \<Rightarrow> uint16_t
     \<Rightarrow> uint8_t list \<Rightarrow> uint32_t \<Rightarrow> QUIC_TRANSPORT_PARAMETERS \<Rightarrow> addr option \<Rightarrow> memory
     \<Rightarrow> memory option" where
  "QuicSessionServerCacheSetStateInternal H Mem Session' ServerNameLength' ServerName'
       QuicVersion' Parameters SecConfig' m =
     do {
       Hash \<leftarrow> QuicHashSimple H ServerNameLength' ServerName';
       s \<leftarrow> get_session m Session';
       (case QuicSessionServerCacheLookup s ServerNameLength' ServerName' Hash of
          Some i \<Rightarrow>
            do {
              let Cache = (ServerCache s ! i)
                    \<lparr>QuicVersion := QuicVersion', TransportParameters := Parameters\<rparr>;
              (Cache, m1) \<leftarrow>
                (case SecConfig' of
                   None \<Rightarrow> Some (Cache, m)
                 | Some p \<Rightarrow>
                     do {
                       m0 \<leftarrow> (case SecConfig Cache of
                                None \<Rightarrow> Some m
                              | Some q \<Rightarrow> QuicTlsSecConfigRelease q m);
                       m1 \<leftarrow> QuicTlsSecConfigAddRef p m0;
                       Some (Cache\<lparr>SecConfig := Some p\<rparr>, m1)
                     });
              Some (m1(Session' \<mapsto> SessionObj (s\<lparr>ServerCache := (ServerCache s)[i := Cache]\<rparr>)))
            }
        | None \<Rightarrow>
            (case Mem of
               Some Block \<Rightarrow>
                 do {
                   let Cache = Block
                         \<lparr>ServerName := memcpy ServerName' (unat ServerNameLength'),
                          ServerNameLength := ServerNameLength',
                          QuicVersion := QuicVersion',
                          TransportParameters := Parameters\<rparr>;
                   (Cache, m1) \<leftarrow>
                     (case SecConfig' of
                        None \<Rightarrow> Some (Cache, m)
                      | Some p \<Rightarrow>
                          do {
                            m1 \<leftarrow> QuicTlsSecConfigAddRef p m;
                            Some (Cache\<lparr>SecConfig := Some p\<rparr>, m1)
                          });
                   Some (m1(Session' \<mapsto> SessionObj
                              (s\<lparr>ServerCache := QuicHashtableInsert (ServerCache s) Cache Hash\<rparr>)))
                 }
             | None \<Rightarrow> Some m))
     }"

definition QuicSessionServerCacheSetState ::
  "(uint8_t list \<Rightarrow> uint32_t) \<Rightarrow> QUIC_SERVER_CACHE option \<Rightarrow> addr
     \<Rightarrow> uint8_t list \<Rightarrow> uint32_t \<Rightarrow> QUIC_TRANSPORT_PARAMETERS \<Rightarrow> addr option \<Rightarrow> memory
     \<Rightarrow> memory option" where
  "QuicSessionServerCacheSetState H Mem Session' ServerName' QuicVersion' Parameters
       SecConfig' m =
     do {
       n \<leftarrow> strlen ServerName';
       QuicSessionServerCacheSetStateInternal H Mem Session' (word_of_nat n :: uint16_t)
         ServerName' QuicVersion' Parameters SecConfig' m
     }"

section \<open>Notions used to state the properties\<close>

subsection \<open>Shutdown requests\<close>

text \<open>
  The memory after a broadcast over the connections \<open>cs\<close>: each of them has gone through
  the loop body once, everything else is as before.
\<close>

definition broadcast :: "addr list \<Rightarrow> uint32_t \<Rightarrow> uint64_t \<Rightarrow> memory \<Rightarrow> memory" where
  "broadcast cs Flags ErrorCode m =
     (\<lambda>a. if a \<in> set cs
          then (case m a of
                  Some (ConnectionObj c) \<Rightarrow>
                    Some (ConnectionObj (shutdown_connection Flags ErrorCode c))
                | x \<Rightarrow> x)
          else m a)"

text \<open>
  The number of times a connection's reserved operation stands in its work queue, and
  the state of a connection whose slot flag agrees with its queue: nothing pending while
  the flag is clear, at most one request while it is set.
\<close>

definition pending :: "QUIC_CONNECTION \<Rightarrow> nat" where
  "pending c = count_list (OperQ c) BackUpOper_ptr"

definition slot_consistent :: "QUIC_CONNECTION \<Rightarrow> bool" where
  "slot_consistent c = (pending c \<le> (if BackUpOperUsed c = 0 then 0 else 1))"

definition members_valid :: "memory \<Rightarrow> addr list \<Rightarrow> bool" where
  "members_valid m cs = list_all (\<lambda>c. get_connection m c \<noteq> None) cs"

definition members_consistent :: "memory \<Rightarrow> addr list \<Rightarrow> bool" where
  "members_consistent m cs =
     list_all (\<lambda>c. case get_connection m c of None \<Rightarrow> False | Some k \<Rightarrow> slot_consistent k) cs"

text \<open>Any number of shutdown calls on one handle, each with its flags and error code.\<close>

fun shutdown_calls ::
  "QUIC_BUILD \<Rightarrow> HQUIC \<Rightarrow> (uint32_t \<times> uint64_t) list \<Rightarrow> memory \<Rightarrow> memory option" where
  "shutdown_calls b Handle [] m = Some m"
| "shutdown_calls b Handle ((Flags, ErrorCode) # calls) m =
     do {
       m' \<leftarrow> MsQuicSessionShutdown b Handle Flags ErrorCode m;
       shutdown_calls b Handle calls m'
     }"

subsection \<open>Example states\<close>

definition example_build :: QUIC_BUILD where
  "example_build = \<lparr>DebugAsserts = True, TelemetryAsserts = True\<rparr>"

definition example_connection :: "addr option \<Rightarrow> QUIC_CONNECTION" where
  "example_connection Session' =
     \<lparr>Type = QUIC_HANDLE_TYPE_CLIENT, Session = Session', conn_Registration = None,
      conn_Settings = 0, BackUpOperUsed = 0,
      BackUpOper = \<lparr>FreeAfterProcess = False, oper_Type = QUIC_OPER_TYPE_OTHER 0,
                    API_CALL_Context = None\<rparr>,
      BackupApiContext = \<lparr>api_Type = QUIC_API_TYPE_OTHER 0, CONN_SHUTDOWN_Flags = 0,
                          CONN_SHUTDOWN_ErrorCode = 0\<rparr>,
      OperQ = []\<rparr>"

text \<open>An ownerless session at address 1 with the two connections 2 and 3.\<close>

definition unowned_session :: QUIC_SESSION where
  "unowned_session =
     \<lparr>ClientContext = None, Registration = None, Settings = 0,
      Rundown = \<lparr>RefCount = 3, Draining = False\<rparr>,
      Connections = [2, 3], ServerCache = []\<rparr>"

definition unowned_memory :: memory where
  "unowned_memory =
     [1 \<mapsto> SessionObj unowned_session,
      2 \<mapsto> ConnectionObj (example_connection (Some 1)),
      3 \<mapsto> ConnectionObj (example_connection (Some 1))]"

subsection \<open>The server cache\<close>

text \<open>Identity of a cache entry: the lengths are equal and the bytes agree over that length.\<close>

definition identity_matches :: "QUIC_SERVER_CACHE \<Rightarrow> uint16_t \<Rightarrow> uint8_t list \<Rightarrow> bool" where
  "identity_matches e L N =
     (ServerNameLength e = L \<and> take (unat L) (ServerName e) = take (unat L) N)"

text \<open>What the table is indexed by: signature, name length and name of each entry, in order.\<close>

definition cache_keys :: "QUIC_SERVER_CACHE list \<Rightarrow> (uint32_t \<times> uint16_t \<times> uint8_t list) list" where
  "cache_keys T = map (\<lambda>e. (Signature e, ServerNameLength e, ServerName e)) T"

text \<open>A security configuration pointer that is null or points to a live configuration.\<close>

definition sec_valid :: "memory \<Rightarrow> addr option \<Rightarrow> bool" where
  "sec_valid m x = (case x of None \<Rightarrow> True | Some p \<Rightarrow> get_sec_config m p \<noteq> None)"

definition cache_sec_valid :: "memory \<Rightarrow> QUIC_SERVER_CACHE list \<Rightarrow> bool" where
  "cache_sec_valid m T = list_all (\<lambda>e. sec_valid m (SecConfig e)) T"

text \<open>A table as calls of the set operation build it: every entry stores as many name bytes as
  its length says and stands under the hash of its name.\<close>

definition cache_wf :: "(uint8_t list \<Rightarrow> uint32_t) \<Rightarrow> QUIC_SERVER_CACHE list \<Rightarrow> bool" where
  "cache_wf H T =
     list_all (\<lambda>e. length (ServerName e) = unat (ServerNameLength e) \<and>
                   Signature e = H (ServerName e)) T"

text \<open>A hash under which names of equal length collide.\<close>

definition example_hash :: "uint8_t list \<Rightarrow> uint32_t" where
  "example_hash bytes = word_of_nat (length bytes)"

text \<open>A session at address 4 with an empty cache, and a security configuration at address 5.\<close>

definition empty_session :: QUIC_SESSION where
  "empty_session =
     \<lparr>ClientContext = None, Registration = None, Settings = 0,
      Rundown = QuicRundownInitialize, Connections = [], ServerCache = []\<rparr>"

definition cache_memory :: memory where
  "cache_memory = [4 \<mapsto> SessionObj empty_session, 5 \<mapsto> SecConfigObj 1]"

text \<open>A block as the allocator hands it out, with a given content of its \<open>SecConfig\<close> field.\<close>

definition example_block :: "addr option \<Rightarrow> QUIC_SERVER_CACHE" where
  "example_block Garbage =
     \<lparr>Signature = 0, ServerName = [], ServerNameLength = 0, QuicVersion = 0,
      TransportParameters = 0, SecConfig = Garbage\<rparr>"

text \<open>The same session with one entry, for the name \<open>cd\<close>.\<close>

definition cached_session :: QUIC_SESSION where
  "cached_session =
     \<lparr>ClientContext = None, Registration = None, Settings = 0,
      Rundown = QuicRundownInitialize, Connections = [],
      ServerCache =
        [\<lparr>Signature = 2, ServerName = [99, 100], ServerNameLength = 2, QuicVersion = 2,
          TransportParameters = 9, SecConfig = Some 5\<rparr>]\<rparr>"

definition cached_memory :: memory where
  "cached_memory = [4 \<mapsto> SessionObj cached_session, 5 \<mapsto> SecConfigObj 2]"

text \<open>A name of 65537 bytes before its terminator.\<close>

definition long_name :: "uint8_t list" where
  "long_name = replicate 65536 97 @ [98, 0]"

text \<open>
  The memory after a first \<open>cache_set\<close> for the name \<open>ab\<close> with version 1, parameters 7
  and no security configuration, on a block whose \<open>SecConfig\<close> field held \<open>Garbage\<close>.
\<close>

definition stale_session :: "addr option \<Rightarrow> QUIC_SESSION" where
  "stale_session Garbage =
     empty_session\<lparr>ServerCache :=
       [\<lparr>Signature = 2, ServerName = [97, 98], ServerNameLength = 2, QuicVersion = 1,
         TransportParameters = 7, SecConfig = Garbage\<rparr>]\<rparr>"

definition stale_entry_memory :: "addr option \<Rightarrow> memory" where
  "stale_entry_memory Garbage = cache_memory(4 \<mapsto> SessionObj (stale_session Garbage))"

text \<open>
  What \<open>cache_get\<close> is to do for an identity given by its length and its bytes: the first
  entry of the table with exactly that length and those bytes decides; its version, its
  parameters and its configuration are handed out, with one more reference on the
  configuration.
\<close>

definition cache_get_on_identity ::
  "addr \<Rightarrow> uint16_t \<Rightarrow> uint8_t list \<Rightarrow> memory
     \<Rightarrow> ((uint32_t \<times> QUIC_TRANSPORT_PARAMETERS \<times> addr option) option \<times> memory) option" where
  "cache_get_on_identity S L N m =
     do {
       s \<leftarrow> get_session m S;
       (case List.find (\<lambda>e. ServerNameLength e = L \<and> ServerName e = N) (ServerCache s) of
          None \<Rightarrow> Some (None, m)
        | Some e \<Rightarrow>
            (case SecConfig e of
               None \<Rightarrow> Some (Some (QuicVersion e, TransportParameters e, None), m)
             | Some p \<Rightarrow>
                 do {
                   k \<leftarrow> get_sec_config m p;
                   Some (Some (QuicVersion e, TransportParameters e, Some p),
                         m(p \<mapsto> SecConfigObj (k + 1)))
                 }))
     }"

text \<open>A session whose cache holds one entry, for the one-byte name \<open>a\<close>.\<close>

definition aliased_session :: QUIC_SESSION where
  "aliased_session =
     \<lparr>ClientContext = None, Registration = None, Settings = 0,
      Rundown = QuicRundownInitialize, Connections = [],
      ServerCache =
        [\<lparr>Signature = 1, ServerName = [97], ServerNameLength = 1, QuicVersion = 3,
          TransportParameters = 8, SecConfig = None\<rparr>]\<rparr>"

definition aliased_memory :: memory where
  "aliased_memory = [4 \<mapsto> SessionObj aliased_session]"

text \<open>Security configurations stay allocated from one memory to the next.\<close>

definition sec_preserved :: "memory \<Rightarrow> memory \<Rightarrow> bool" where
  "sec_preserved m m' = (\<forall>p. get_sec_config m p \<noteq> None \<longrightarrow> get_sec_config m' p \<noteq> None)"

definition same_sec_configs :: "memory \<Rightarrow> memory \<Rightarrow> bool" where
  "same_sec_configs m m' = (\<forall>p. (get_sec_config m' p = None) = (get_sec_config m p = None))"

subsection \<open>Session lifecycle and membership\<close>

text \<open>The session \<open>QuicSessionAlloc\<close> builds: zeroed, with the context, the registration and
  an initialised guard.\<close>

definition new_session :: "addr option \<Rightarrow> addr option \<Rightarrow> QUIC_SESSION" where
  "new_session Registration' Context =
     \<lparr>ClientContext = Context, Registration = Registration', Settings = 0,
      Rundown = \<lparr>RefCount = 1, Draining = False\<rparr>, Connections = [], ServerCache = []\<rparr>"

text \<open>The memory a close call leaves, whether it returned or waits.\<close>

definition close_memory :: "close_outcome \<Rightarrow> memory" where
  "close_memory out = (case out of Returned m \<Rightarrow> m | Waiting m \<Rightarrow> m)"

text \<open>The end of \<open>MsQuicSessionClose\<close>, from \<open>QuicRundownReleaseAndWait\<close> on, for a session
  \<open>s\<close> at \<open>h\<close>: with the own token as the last one the session is freed (an enabled
  assertion stops a session that still has members), otherwise the call waits with
  draining started.\<close>

definition release_wait_free ::
  "QUIC_BUILD \<Rightarrow> addr \<Rightarrow> QUIC_SESSION \<Rightarrow> memory \<Rightarrow> close_outcome option" where
  "release_wait_free b h s m =
     (if RefCount (Rundown s) = 1
      then (if TelemetryAsserts b \<and> Connections s \<noteq> [] then None
            else Some (Returned (m(h := None))))
      else Some (Waiting (m(h \<mapsto> SessionObj
             (s\<lparr>Rundown := \<lparr>RefCount = RefCount (Rundown s) - 1, Draining = True\<rparr>\<rparr>)))))"

text \<open>A sequence of calls of the two registry operations against one session.\<close>

datatype registry_call = Register addr | Unregister addr

fun connection_of :: "registry_call \<Rightarrow> addr" where
  "connection_of (Register c) = c"
| "connection_of (Unregister c) = c"

fun registry_calls :: "QUIC_BUILD \<Rightarrow> addr \<Rightarrow> registry_call list \<Rightarrow> memory \<Rightarrow> memory option" where
  "registry_calls b S [] m = Some m"
| "registry_calls b S (Register c # calls) m =
     do { m' \<leftarrow> QuicSessionRegisterConnection b S c m; registry_calls b S calls m' }"
| "registry_calls b S (Unregister c # calls) m =
     do { m' \<leftarrow> QuicSessionUnregisterConnection c m; registry_calls b S calls m' }"

text \<open>The membership the calls should produce: a registration moves the connection to the
  tail, an unregistration takes it out.\<close>

fun members_after :: "addr list \<Rightarrow> registry_call list \<Rightarrow> addr list" where
  "members_after l [] = l"
| "members_after l (Register c # calls) = members_after (remove1 c l @ [c]) calls"
| "members_after l (Unregister c # calls) = members_after (remove1 c l) calls"

text \<open>The registrations and the unregistrations that take effect: every register call
  appends; a connection is removed by an unregister call, or by the unregistration a
  register call starts with, when it is a member.\<close>

fun registrations :: "registry_call list \<Rightarrow> nat" where
  "registrations [] = 0"
| "registrations (Register c # calls) = Suc (registrations calls)"
| "registrations (Unregister c # calls) = registrations calls"

fun unregistrations :: "addr list \<Rightarrow> registry_call list \<Rightarrow> nat" where
  "unregistrations l [] = 0"
| "unregistrations l (Register c # calls) =
     (if c \<in> set l then 1 else 0) + unregistrations (remove1 c l @ [c]) calls"
| "unregistrations l (Unregister c # calls) =
     (if c \<in> set l then 1 else 0) + unregistrations (remove1 c l) calls"

text \<open>The back-reference of a connection agrees with the membership \<open>l\<close> of the session \<open>S\<close>.\<close>

definition back_reference_ok :: "memory \<Rightarrow> addr \<Rightarrow> addr list \<Rightarrow> addr \<Rightarrow> bool" where
  "back_reference_ok m S l c =
     (case get_connection m c of
        None \<Rightarrow> False
      | Some k \<Rightarrow> Session k = (if c \<in> set l then Some S else None))"

text \<open>The state of a session that accepts registrations, seen from the connections \<open>cs\<close>:
  not draining, one guard token for itself and one per member, no member linked twice, a
  live registration if it has one, and back-references that agree with the membership.\<close>

definition registry_inv :: "memory \<Rightarrow> addr \<Rightarrow> addr list \<Rightarrow> bool" where
  "registry_inv m S cs =
     (case get_session m S of
        None \<Rightarrow> False
      | Some s \<Rightarrow>
          \<not> Draining (Rundown s) \<and>
          RefCount (Rundown s) = 1 + int (length (Connections s)) \<and>
          distinct (Connections s) \<and>
          (case Registration s of None \<Rightarrow> True | Some r \<Rightarrow> get_registration m r \<noteq> None) \<and>
          list_all (back_reference_ok m S (Connections s)) cs)"

text \<open>A registration at address 6 that owns the session at address 7; connection 8 is
  registered with the session, connection 9 with none.\<close>

definition owned_session :: QUIC_SESSION where
  "owned_session =
     \<lparr>ClientContext = None, Registration = Some 6, Settings = 11,
      Rundown = \<lparr>RefCount = 2, Draining = False\<rparr>,
      Connections = [8], ServerCache = []\<rparr>"

definition example_registration :: QUIC_REGISTRATION where
  "example_registration =
     \<lparr>Sessions = [7], ConnectionRundown = \<lparr>RefCount = 2, Draining = False\<rparr>\<rparr>"

definition owned_memory :: memory where
  "owned_memory =
     [6 \<mapsto> RegistrationObj example_registration,
      7 \<mapsto> SessionObj owned_session,
      8 \<mapsto> ConnectionObj (example_connection (Some 7)),
      9 \<mapsto> ConnectionObj (example_connection None)]"

section \<open>Properties\<close>

subsection \<open>The shutdown broadcaster\<close>

lemma shutdown_connection_idem:
  "shutdown_connection F' E' (shutdown_connection F E c) = shutdown_connection F E c"
  by (simp add: shutdown_connection_def InterlockedCompareExchange16_def
      QuicConnQueueHighestPriorityOper_def)

lemma shutdown_connection_cases:
  "shutdown_connection F E k =
     (if BackUpOperUsed k = 0
      then k\<lparr>BackUpOperUsed := 1,
             BackUpOper := \<lparr>FreeAfterProcess = False, oper_Type = QUIC_OPER_TYPE_API_CALL,
                            API_CALL_Context = Some BackupApiContext_ptr\<rparr>,
             BackupApiContext := \<lparr>api_Type = QUIC_API_TYPE_CONN_SHUTDOWN,
                                  CONN_SHUTDOWN_Flags = F, CONN_SHUTDOWN_ErrorCode = E\<rparr>,
             OperQ := BackUpOper_ptr # OperQ k\<rparr>
      else k)"
  by (simp add: shutdown_connection_def InterlockedCompareExchange16_def
      QuicConnQueueHighestPriorityOper_def)

lemma shutdown_walk_eq:
  "members_valid m cs \<Longrightarrow>
   shutdown_walk cs Flags ErrorCode m = Some (broadcast cs Flags ErrorCode m)"
proof (induction cs arbitrary: m)
  case Nil
  show ?case by (simp add: broadcast_def)
next
  case (Cons a cs)
  from Cons.prems obtain k where k: "get_connection m a = Some k"
    by (auto simp: members_valid_def)
  let ?m1 = "m(a \<mapsto> ConnectionObj (shutdown_connection Flags ErrorCode k))"
  have v: "members_valid ?m1 cs"
    using Cons.prems by (auto simp: get_connection_def members_valid_def list_all_iff)
  have e: "broadcast cs Flags ErrorCode ?m1 = broadcast (a # cs) Flags ErrorCode m"
    using k by (auto simp: broadcast_def fun_eq_iff get_connection_def shutdown_connection_idem
        split: option.splits object.splits)
  have "shutdown_walk (a # cs) Flags ErrorCode m = shutdown_walk cs Flags ErrorCode ?m1"
    using k by simp
  also have "\<dots> = Some (broadcast cs Flags ErrorCode ?m1)"
    by (rule Cons.IH[OF v])
  finally show ?case by (simp only: e)
qed

lemma slot_consistent_shutdown:
  "slot_consistent c \<Longrightarrow> slot_consistent (shutdown_connection F E c)"
  by (auto simp add: slot_consistent_def pending_def shutdown_connection_cases split: if_splits)

lemma MsQuicSessionShutdown_eq:
  assumes "get_session m h = Some s" and "members_valid m (Connections s)"
  shows "MsQuicSessionShutdown b (Some h) Flags ErrorCode m =
     Some (if ErrorCode > QUIC_UINT62_MAX then m else broadcast (Connections s) Flags ErrorCode m)"
  using assms
  by (simp add: MsQuicSessionShutdown_def QUIC_DBG_ASSERT_def Handle_Type_def get_session_def
      shutdown_walk_eq split: option.splits object.splits)

lemma broadcast_session: "get_session (broadcast cs F E m) h = get_session m h"
  by (auto simp: broadcast_def get_session_def split: option.splits object.splits)

lemma broadcast_connection:
  "get_connection (broadcast cs F E m) c =
     map_option (\<lambda>k. if c \<in> set cs then shutdown_connection F E k else k) (get_connection m c)"
  by (auto simp: broadcast_def get_connection_def split: option.splits object.splits)

lemma members_valid_broadcast:
  "members_valid m cs \<Longrightarrow> members_valid (broadcast cs' F E m) cs"
  by (auto simp: members_valid_def broadcast_connection list_all_iff)

lemma members_consistent_broadcast:
  "members_consistent m cs \<Longrightarrow> members_consistent (broadcast cs' F E m) cs"
  by (auto simp: members_consistent_def broadcast_connection list_all_iff slot_consistent_shutdown
     split: option.splits)

lemma members_consistent_valid: "members_consistent m cs \<Longrightarrow> members_valid m cs"
  by (auto simp: members_consistent_def members_valid_def list_all_iff split: option.splits)

lemma shutdown_calls_consistent:
  assumes "get_session m h = Some s" and "members_consistent m (Connections s)"
  shows "\<exists>m'. shutdown_calls b (Some h) calls m = Some m' \<and> get_session m' h = Some s \<and>
           members_consistent m' (Connections s)"
  using assms
proof (induction calls arbitrary: m)
  case Nil
  then show ?case by simp
next
  case (Cons call calls)
  obtain F E where call: "call = (F, E)" by (cases call)
  let ?m1 = "if E > QUIC_UINT62_MAX then m else broadcast (Connections s) F E m"
  have 1: "MsQuicSessionShutdown b (Some h) F E m = Some ?m1"
    using Cons.prems by (simp only: MsQuicSessionShutdown_eq members_consistent_valid)
  have 2: "get_session ?m1 h = Some s"
    using Cons.prems by (simp add: broadcast_session)
  have 3: "members_consistent ?m1 (Connections s)"
    using Cons.prems by (simp add: members_consistent_broadcast)
  from Cons.IH[OF 2 3] 1 call show ?case by simp
qed

lemma slot_consistent_pending: "slot_consistent k \<Longrightarrow> pending k \<le> 1"
  by (simp add: slot_consistent_def split: if_splits)

lemma members_consistent_pending:
  assumes "members_consistent m cs" and "c \<in> set cs"
  shows "\<exists>k. get_connection m c = Some k \<and> pending k \<le> 1"
proof (cases "get_connection m c")
  case None
  with assms show ?thesis by (auto simp: members_consistent_def list_all_iff)
next
  case (Some k)
  with assms have "slot_consistent k" by (auto simp: members_consistent_def list_all_iff)
  with Some show ?thesis by (blast intro: slot_consistent_pending)
qed

text \<open>
  Claim C1. A shutdown call on a session whose member connections are live fills and
  queues a connection's reserved request exactly when the compare-and-set of its slot
  flag from 0 to 1 succeeds (the flag was 0 and the error code is in range), and leaves
  every other member as it was. Consequently, from a state where each member's flag
  agrees with its queue, any number of shutdown calls leave at most one reserved request
  pending on each member.
\<close>

theorem shutdown_at_most_one_pending:
  assumes "get_session m h = Some s" and "members_valid m (Connections s)"
  shows "(\<exists>m1. MsQuicSessionShutdown b (Some h) Flags ErrorCode m = Some m1 \<and>
            (\<forall>c \<in> set (Connections s). \<forall>k. get_connection m c = Some k \<longrightarrow>
               get_connection m1 c =
                 Some (if ErrorCode \<le> QUIC_UINT62_MAX \<and> BackUpOperUsed k = 0
                       then k\<lparr>BackUpOperUsed := 1,
                              BackUpOper :=
                                \<lparr>FreeAfterProcess = False, oper_Type = QUIC_OPER_TYPE_API_CALL,
                                 API_CALL_Context = Some BackupApiContext_ptr\<rparr>,
                              BackupApiContext :=
                                \<lparr>api_Type = QUIC_API_TYPE_CONN_SHUTDOWN,
                                 CONN_SHUTDOWN_Flags = Flags,
                                 CONN_SHUTDOWN_ErrorCode = ErrorCode\<rparr>,
                              OperQ := BackUpOper_ptr # OperQ k\<rparr>
                       else k))) \<and>
         (members_consistent m (Connections s) \<longrightarrow>
            (\<exists>m'. shutdown_calls b (Some h) calls m = Some m' \<and>
               (\<forall>c \<in> set (Connections s). \<exists>k'. get_connection m' c = Some k' \<and> pending k' \<le> 1)))"
proof (intro conjI impI)
  show "\<exists>m1. MsQuicSessionShutdown b (Some h) Flags ErrorCode m = Some m1 \<and>
            (\<forall>c \<in> set (Connections s). \<forall>k. get_connection m c = Some k \<longrightarrow>
               get_connection m1 c =
                 Some (if ErrorCode \<le> QUIC_UINT62_MAX \<and> BackUpOperUsed k = 0
                       then k\<lparr>BackUpOperUsed := 1,
                              BackUpOper :=
                                \<lparr>FreeAfterProcess = False, oper_Type = QUIC_OPER_TYPE_API_CALL,
                                 API_CALL_Context = Some BackupApiContext_ptr\<rparr>,
                              BackupApiContext :=
                                \<lparr>api_Type = QUIC_API_TYPE_CONN_SHUTDOWN,
                                 CONN_SHUTDOWN_Flags = Flags,
                                 CONN_SHUTDOWN_ErrorCode = ErrorCode\<rparr>,
                              OperQ := BackUpOper_ptr # OperQ k\<rparr>
                       else k))"
    using assms
    by (auto simp: MsQuicSessionShutdown_eq broadcast_connection shutdown_connection_cases)
next
  assume c: "members_consistent m (Connections s)"
  from shutdown_calls_consistent[OF assms(1) c, of b calls]
  obtain m' where m': "shutdown_calls b (Some h) calls m = Some m'"
    and mc: "members_consistent m' (Connections s)" by blast
  have "\<forall>c \<in> set (Connections s). \<exists>k'. get_connection m' c = Some k' \<and> pending k' \<le> 1"
    using mc by (blast dest: members_consistent_pending)
  with m' show "\<exists>m'. shutdown_calls b (Some h) calls m = Some m' \<and>
               (\<forall>c \<in> set (Connections s). \<exists>k'. get_connection m' c = Some k' \<and> pending k' \<le> 1)"
    by blast
qed

text \<open>
  Claim C7. For every session, flags and error code above the 62-bit bound, shutdown
  returns with the memory exactly as it was: no slot is touched, nothing is queued.
\<close>

theorem shutdown_out_of_range:
  assumes "ErrorCode > QUIC_UINT62_MAX" and "get_session m h = Some s"
  shows "MsQuicSessionShutdown b (Some h) Flags ErrorCode m = Some m"
  using assms
  by (simp add: MsQuicSessionShutdown_def QUIC_DBG_ASSERT_def Handle_Type_def get_session_def
      split: option.splits object.splits)


text \<open>
  An instance: on the ownerless session with its two connections, one call fills and
  queues the request of connection 2, and three calls leave at most one request pending
  on connection 3.
\<close>

theorem shutdown_at_most_one_pending_witness:
  "get_session unowned_memory 1 = Some unowned_session \<and>
   members_valid unowned_memory (Connections unowned_session) \<and>
   members_consistent unowned_memory (Connections unowned_session) \<and>
   (\<exists>m1. MsQuicSessionShutdown example_build (Some 1) 0 7 unowned_memory = Some m1 \<and>
      map_option BackUpOperUsed (get_connection m1 2) = Some 1 \<and>
      map_option OperQ (get_connection m1 2) = Some [BackUpOper_ptr]) \<and>
   (\<exists>m'. shutdown_calls example_build (Some 1) [(0, 7), (1, 9), (0, 7)] unowned_memory = Some m' \<and>
      (\<exists>k'. get_connection m' 3 = Some k' \<and> pending k' \<le> 1))"
proof -
  have 1: "get_session unowned_memory 1 = Some unowned_session"
    by (simp add: get_session_def unowned_memory_def)
  have 2: "members_valid unowned_memory (Connections unowned_session)"
    by (simp add: members_valid_def unowned_session_def unowned_memory_def get_connection_def)
  have 3: "members_consistent unowned_memory (Connections unowned_session)"
    by (simp add: members_consistent_def unowned_session_def unowned_memory_def
        get_connection_def slot_consistent_def pending_def example_connection_def)
  have 4: "(7 :: uint64_t) \<le> QUIC_UINT62_MAX"
    by (simp add: QUIC_UINT62_MAX_def)
  have 5: "get_connection unowned_memory 2 = Some (example_connection (Some 1))"
    by (simp add: unowned_memory_def get_connection_def)
  have 6: "BackUpOperUsed (example_connection (Some 1)) = 0"
    by (simp add: example_connection_def)
  have 7: "OperQ (example_connection (Some 1)) = []"
    by (simp add: example_connection_def)
  have 8: "Connections unowned_session = [2, 3]"
    by (simp add: unowned_session_def)
  from shutdown_at_most_one_pending [OF 1 2, of example_build 0 7 "[(0, 7), (1, 9), (0, 7)]"]
    1 2 3 4 5 6 7 8
  show ?thesis by fastforce
qed

text \<open>An instance: the error code \<open>2^62\<close>, the first one out of range.\<close>

theorem shutdown_out_of_range_witness:
  "(2 ^ 62 :: uint64_t) > QUIC_UINT62_MAX \<and>
   get_session unowned_memory 1 = Some unowned_session \<and>
   MsQuicSessionShutdown example_build (Some 1) 0 (2 ^ 62) unowned_memory = Some unowned_memory"
proof -
  have 1: "(2 ^ 62 :: uint64_t) > QUIC_UINT62_MAX"
    by (simp add: QUIC_UINT62_MAX_def)
  have 2: "get_session unowned_memory 1 = Some unowned_session"
    by (simp add: get_session_def unowned_memory_def)
  from shutdown_out_of_range [OF 1 2] 1 2 show ?thesis by simp
qed

subsection \<open>The server cache\<close>

lemma chain_scan_find:
  "chain_scan T (filter Q is) L N = List.find (\<lambda>i. Q i \<and> identity_matches (T ! i) L N) is"
  by (induction "is") (simp_all add: identity_matches_def memcmp_def Let_def)

lemma lookup_find:
  "QuicSessionServerCacheLookup s L N Hash =
     List.find (\<lambda>i. Signature (ServerCache s ! i) = Hash \<and> identity_matches (ServerCache s ! i) L N)
       [0..<length (ServerCache s)]"
  by (simp add: QuicSessionServerCacheLookup_def QuicHashtableLookup_def chain_scan_find)

lemma lookup_Some:
  assumes "QuicSessionServerCacheLookup s L N Hash = Some i"
  shows "i < length (ServerCache s) \<and> Signature (ServerCache s ! i) = Hash \<and>
         identity_matches (ServerCache s ! i) L N"
  using assms by (auto simp: lookup_find find_Some_iff)

lemma lookup_None:
  "QuicSessionServerCacheLookup s L N Hash = None \<longleftrightarrow>
     (\<forall>e \<in> set (ServerCache s). \<not> (Signature e = Hash \<and> identity_matches e L N))"
  by (auto simp add: lookup_find find_None_iff all_set_conv_all_nth)

lemma cache_keys_nth:
  assumes "cache_keys T' = cache_keys T" and "i < length T"
  shows "Signature (T' ! i) = Signature (T ! i) \<and> ServerNameLength (T' ! i) = ServerNameLength (T ! i)
         \<and> ServerName (T' ! i) = ServerName (T ! i)"
proof -
  from assms(1) have len: "length T' = length T"
    unfolding cache_keys_def by (rule map_eq_imp_length_eq)
  from assms(1) have "cache_keys T' ! i = cache_keys T ! i" by simp
  with assms(2) len show ?thesis by (simp add: cache_keys_def)
qed

lemma lookup_keys:
  assumes "cache_keys (ServerCache s') = cache_keys (ServerCache s)"
  shows "QuicSessionServerCacheLookup s' L N Hash = QuicSessionServerCacheLookup s L N Hash"
proof -
  from assms have len: "length (ServerCache s') = length (ServerCache s)"
    unfolding cache_keys_def by (rule map_eq_imp_length_eq)
  have "List.find (\<lambda>i. Signature (ServerCache s' ! i) = Hash \<and> identity_matches (ServerCache s' ! i) L N)
          [0..<length (ServerCache s)] =
        List.find (\<lambda>i. Signature (ServerCache s ! i) = Hash \<and> identity_matches (ServerCache s ! i) L N)
          [0..<length (ServerCache s)]"
    by (rule find_cong) (simp_all add: identity_matches_def cache_keys_nth[OF assms])
  then show ?thesis by (simp add: lookup_find len)
qed

lemma find_map_option: "List.find P (map f xs) = map_option f (List.find (\<lambda>x. P (f x)) xs)"
  by (induction xs) simp_all

lemma lookup_insert:
  assumes "ServerCache s' = e # ServerCache s"
  shows "QuicSessionServerCacheLookup s' L N Hash =
     (if Signature e = Hash \<and> identity_matches e L N then Some 0
      else map_option Suc (QuicSessionServerCacheLookup s L N Hash))"
proof -
  have "[0..<length (e # ServerCache s)] = 0 # map Suc [0..<length (ServerCache s)]"
    by (simp add: upt_conv_Cons map_Suc_upt del: upt_Suc)
  then show ?thesis
    by (simp add: lookup_find assms find_map_option del: upt_Suc)
qed


lemma strlen_less: "strlen N = Some n \<Longrightarrow> n < length N"
proof -
  assume a: "strlen N = Some n"
  then have z: "0 \<in> set N" and n: "n = length (takeWhile (\<lambda>c. c \<noteq> 0) N)"
    by (auto simp: strlen_def split: if_splits)
  from z have "takeWhile (\<lambda>c. c \<noteq> 0) N \<noteq> N"
    by (metis (mono_tags, lifting) set_takeWhileD)
  then have "length (takeWhile (\<lambda>c. c \<noteq> 0) N) \<noteq> length N"
    by (metis takeWhile_eq_take take_all_iff order_refl)
  with n show ?thesis
    using length_takeWhile_le[of "\<lambda>c. c \<noteq> 0" N] by simp
qed

lemma unat_name_length: "unat (word_of_nat n :: uint16_t) = n mod 65536"
  by (simp add: unat_of_nat)

lemma strlen_hash:
  assumes "strlen N = Some n"
  shows "QuicHashSimple H (word_of_nat n :: uint16_t) N = Some (H (take (n mod 65536) N))"
proof -
  have "n mod 65536 \<le> n" by simp
  with strlen_less[OF assms] show ?thesis
    by (simp add: QuicHashSimple_def unat_name_length)
qed

lemma get_state_eq:
  assumes "get_session m S = Some s" and "strlen N = Some n"
  shows "QuicSessionServerCacheGetState H S N m =
     (case QuicSessionServerCacheLookup s (word_of_nat n) N (H (take (n mod 65536) N)) of
        None \<Rightarrow> Some (None, m)
      | Some i \<Rightarrow>
          (case SecConfig (ServerCache s ! i) of
             None \<Rightarrow> Some (Some (QuicVersion (ServerCache s ! i),
                                 TransportParameters (ServerCache s ! i), None), m)
           | Some p \<Rightarrow>
               (case get_sec_config m p of
                  None \<Rightarrow> None
                | Some k \<Rightarrow> Some (Some (QuicVersion (ServerCache s ! i),
                                 TransportParameters (ServerCache s ! i), Some p),
                                 m(p \<mapsto> SecConfigObj (k + 1))))))"
  using assms
  by (simp add: QuicSessionServerCacheGetState_def strlen_hash QuicTlsSecConfigAddRef_def Let_def
      split: option.splits)


lemma release_eq:
  "get_sec_config m q = Some k \<Longrightarrow> QuicTlsSecConfigRelease q m = Some (m(q \<mapsto> SecConfigObj (k - 1)))"
  by (simp add: QuicTlsSecConfigRelease_def)

lemma addref_eq:
  "get_sec_config m p = Some k \<Longrightarrow> QuicTlsSecConfigAddRef p m = Some (m(p \<mapsto> SecConfigObj (k + 1)))"
  by (simp add: QuicTlsSecConfigAddRef_def)

lemma get_sec_config_upd:
  "get_sec_config (m(p \<mapsto> SecConfigObj k)) x = (if x = p then Some k else get_sec_config m x)"
  by (simp add: get_sec_config_def)

lemma get_sec_config_upd_session:
  "get_session m S = Some s \<Longrightarrow> get_sec_config (m(S \<mapsto> SessionObj s')) x = get_sec_config m x"
  by (auto simp add: get_sec_config_def get_session_def split: option.splits object.splits)

lemma get_session_upd_sec:
  "get_sec_config m p = Some k \<Longrightarrow> get_session (m(p \<mapsto> SecConfigObj k')) S = get_session m S"
  by (auto simp add: get_sec_config_def get_session_def split: option.splits object.splits)

lemma get_session_upd: "get_session (m(S \<mapsto> SessionObj s')) S = Some s'"
  by (simp add: get_session_def)

lemma set_internal_existing:
  assumes s: "get_session m S = Some s" and len: "unat L \<le> length N"
    and i: "QuicSessionServerCacheLookup s L N (H (take (unat L) N)) = Some i"
    and c: "sec_valid m SecConfig'" and q: "sec_valid m (SecConfig (ServerCache s ! i))"
  shows "\<exists>m1. QuicSessionServerCacheSetStateInternal H Mem S L N v P SecConfig' m = Some m1 \<and>
           get_session m1 S =
             Some (s\<lparr>ServerCache := (ServerCache s)
                      [i := (ServerCache s ! i)
                         \<lparr>QuicVersion := v, TransportParameters := P,
                          SecConfig := (case SecConfig' of
                                          None \<Rightarrow> SecConfig (ServerCache s ! i)
                                        | Some p \<Rightarrow> Some p)\<rparr>]\<rparr>) \<and>
           sec_preserved m m1"
proof (cases SecConfig')
  case None
  with s len i show ?thesis
    by (simp add: QuicSessionServerCacheSetStateInternal_def QuicHashSimple_def get_session_upd
        sec_preserved_def get_sec_config_upd_session)
next
  case (Some p)
  with c obtain kp where kp: "get_sec_config m p = Some kp" by (auto simp: sec_valid_def)
  show ?thesis
  proof (cases "SecConfig (ServerCache s ! i)")
    case None
    with Some kp s len i show ?thesis
      by (simp add: QuicSessionServerCacheSetStateInternal_def QuicHashSimple_def get_session_upd
          sec_preserved_def get_sec_config_upd_session addref_eq get_session_upd_sec
          get_sec_config_upd)
  next
    case (Some q')
    with q obtain kq where kq: "get_sec_config m q' = Some kq" by (auto simp: sec_valid_def)
    let ?m0 = "m(q' \<mapsto> SecConfigObj (kq - 1))"
    have "\<exists>kp'. get_sec_config ?m0 p = Some kp'"
      using kp by (simp add: get_sec_config_upd)
    then obtain kp' where kp': "get_sec_config ?m0 p = Some kp'" ..
    have s0: "get_session ?m0 S = Some s" using s kq by (simp add: get_session_upd_sec)
    let ?m1 = "?m0(p \<mapsto> SecConfigObj (kp' + 1))"
    have s1: "get_session ?m1 S = Some s" using s0 kp' by (simp add: get_session_upd_sec)
    have pres: "sec_preserved m (?m1(S \<mapsto> SessionObj s'))" for s'
      unfolding sec_preserved_def
      by (simp only: get_sec_config_upd_session[OF s1]) (simp add: get_sec_config_upd)
    from Some \<open>SecConfig' = Some p\<close> kq kp' s len i pres show ?thesis
      by (simp add: QuicSessionServerCacheSetStateInternal_def QuicHashSimple_def get_session_upd
          release_eq addref_eq)
  qed
qed


lemma set_internal_new:
  assumes s: "get_session m S = Some s" and len: "unat L \<le> length N"
    and i: "QuicSessionServerCacheLookup s L N (H (take (unat L) N)) = None"
    and c: "sec_valid m SecConfig'"
  shows "\<exists>m1. QuicSessionServerCacheSetStateInternal H (Some Block) S L N v P SecConfig' m = Some m1 \<and>
           get_session m1 S =
             Some (s\<lparr>ServerCache :=
                      Block\<lparr>Signature := H (take (unat L) N),
                            ServerName := take (unat L) N, ServerNameLength := L,
                            QuicVersion := v, TransportParameters := P,
                            SecConfig := (case SecConfig' of
                                            None \<Rightarrow> SecConfig Block
                                          | Some p \<Rightarrow> Some p)\<rparr> # ServerCache s\<rparr>) \<and>
           sec_preserved m m1"
proof (cases SecConfig')
  case None
  with s len i show ?thesis
    by (simp add: QuicSessionServerCacheSetStateInternal_def QuicHashSimple_def get_session_upd
        sec_preserved_def get_sec_config_upd_session QuicHashtableInsert_def memcpy_def)
next
  case (Some p)
  with c obtain kp where kp: "get_sec_config m p = Some kp" by (auto simp: sec_valid_def)
  with Some s len i show ?thesis
    by (simp add: QuicSessionServerCacheSetStateInternal_def QuicHashSimple_def get_session_upd
        sec_preserved_def get_sec_config_upd_session addref_eq get_session_upd_sec
        get_sec_config_upd QuicHashtableInsert_def memcpy_def)
qed

lemma set_internal_dropped:
  assumes "get_session m S = Some s" and "unat L \<le> length N"
    and "QuicSessionServerCacheLookup s L N (H (take (unat L) N)) = None"
  shows "QuicSessionServerCacheSetStateInternal H None S L N v P SecConfig' m = Some m"
  using assms
  by (simp add: QuicSessionServerCacheSetStateInternal_def QuicHashSimple_def)

lemma set_state_internal:
  assumes "strlen N = Some n"
  shows "QuicSessionServerCacheSetState H Mem S N v P c m =
         QuicSessionServerCacheSetStateInternal H Mem S (word_of_nat n) N v P c m"
  using assms by (simp add: QuicSessionServerCacheSetState_def)

lemma strlen_unat_le:
  assumes "strlen N = Some n"
  shows "unat (word_of_nat n :: uint16_t) \<le> length N"
proof -
  have "n mod 65536 \<le> n" by simp
  with strlen_less[OF assms] show ?thesis by (simp add: unat_name_length)
qed

lemma sec_preserved_valid: "sec_preserved m m1 \<Longrightarrow> sec_valid m x \<Longrightarrow> sec_valid m1 x"
  by (auto simp: sec_preserved_def sec_valid_def split: option.splits)

lemma cache_keys_update:
  "i < length T \<Longrightarrow>
   cache_keys (T[i := (T ! i)\<lparr>QuicVersion := v, TransportParameters := P, SecConfig := c\<rparr>]) = cache_keys T"
  by (simp add: cache_keys_def map_update list_update_same_conv)

lemma get_state_found:
  assumes s: "get_session m S = Some s" and n: "strlen N = Some n"
    and i: "QuicSessionServerCacheLookup s (word_of_nat n) N (H (take (n mod 65536) N)) = Some i"
    and v: "sec_valid m (SecConfig (ServerCache s ! i))"
  shows "\<exists>m'. QuicSessionServerCacheGetState H S N m =
            Some (Some (QuicVersion (ServerCache s ! i), TransportParameters (ServerCache s ! i),
                        SecConfig (ServerCache s ! i)), m')"
  using v by (auto simp: get_state_eq[OF s n] i sec_valid_def split: option.splits)


lemma cache_sec_valid_nth:
  "cache_sec_valid m T \<Longrightarrow> i < length T \<Longrightarrow> sec_valid m (SecConfig (T ! i))"
  by (simp add: cache_sec_valid_def list_all_length)

text \<open>
  Claim C3, as the source has it. Let the session be live, the name a C string, every
  cached security configuration pointer and the one supplied null or live, and let
  either an entry for the identity exist or the allocator hand out a block (whose
  \<open>SecConfig\<close> field is null or live when no configuration is supplied). Then
  \<open>cache_set\<close> returns, and \<open>cache_get\<close> for the same name right after it returns found
  with exactly the version and the parameters set. When an entry existed, the table has
  the same signatures, lengths and names as before: the entry was overwritten in place
  and none was added.
\<close>

theorem cache_set_then_get:
  assumes s: "get_session m S = Some s" and n: "strlen N = Some n"
    and cv: "cache_sec_valid m (ServerCache s)" and c: "sec_valid m SecConfig'"
    and a: "QuicSessionServerCacheLookup s (word_of_nat n) N (H (take (n mod 65536) N)) \<noteq> None \<or>
            (\<exists>Block. Mem = Some Block \<and> (SecConfig' = None \<longrightarrow> sec_valid m (SecConfig Block)))"
  shows "\<exists>m1 s1 cfg m2.
           QuicSessionServerCacheSetState H Mem S N v P SecConfig' m = Some m1 \<and>
           get_session m1 S = Some s1 \<and>
           QuicSessionServerCacheGetState H S N m1 = Some (Some (v, P, cfg), m2) \<and>
           (QuicSessionServerCacheLookup s (word_of_nat n) N (H (take (n mod 65536) N)) \<noteq> None \<longrightarrow>
              cache_keys (ServerCache s1) = cache_keys (ServerCache s))"
proof (cases "QuicSessionServerCacheLookup s (word_of_nat n) N (H (take (n mod 65536) N))")
  case (Some i)
  let ?L = "word_of_nat n :: uint16_t"
  let ?e = "(ServerCache s ! i)
               \<lparr>QuicVersion := v, TransportParameters := P,
                SecConfig := (case SecConfig' of None \<Rightarrow> SecConfig (ServerCache s ! i)
                              | Some p \<Rightarrow> Some p)\<rparr>"
  let ?s1 = "s\<lparr>ServerCache := (ServerCache s)[i := ?e]\<rparr>"
  from Some have i': "QuicSessionServerCacheLookup s ?L N (H (take (unat ?L) N)) = Some i"
    by (simp add: unat_name_length)
  from lookup_Some[OF i'] have il: "i < length (ServerCache s)" by simp
  have q: "sec_valid m (SecConfig (ServerCache s ! i))"
    using cv il by (rule cache_sec_valid_nth)
  from set_internal_existing[where H = H and Mem = Mem and v = v and P = P, OF s strlen_unat_le[OF n] i' c q]
  obtain m1 where m1: "QuicSessionServerCacheSetStateInternal H Mem S ?L N v P SecConfig' m = Some m1"
    and s1: "get_session m1 S = Some ?s1" and pres: "sec_preserved m m1"
    by blast
  have k: "cache_keys (ServerCache ?s1) = cache_keys (ServerCache s)"
    using il by (simp add: cache_keys_update)
  have l1: "QuicSessionServerCacheLookup ?s1 ?L N (H (take (n mod 65536) N)) = Some i"
    using lookup_keys[OF k] Some by simp
  have e: "ServerCache ?s1 ! i = ?e" using il by simp
  have "sec_valid m (SecConfig ?e)"
    using q c by (cases SecConfig') simp_all
  then have "sec_valid m1 (SecConfig (ServerCache ?s1 ! i))"
    unfolding e by (rule sec_preserved_valid[OF pres])
  from get_state_found[where H = H, OF s1 n l1 this] obtain m2 where
    "QuicSessionServerCacheGetState H S N m1 =
       Some (Some (QuicVersion (ServerCache ?s1 ! i), TransportParameters (ServerCache ?s1 ! i),
                   SecConfig (ServerCache ?s1 ! i)), m2)" by blast
  then have g: "QuicSessionServerCacheGetState H S N m1 = Some (Some (v, P, SecConfig ?e), m2)"
    unfolding e by simp
  from m1 have "QuicSessionServerCacheSetState H Mem S N v P SecConfig' m = Some m1"
    by (simp add: set_state_internal[OF n])
  with s1 g k show ?thesis by blast
next
  case None
  let ?L = "word_of_nat n :: uint16_t"
  from None a obtain Block where mem: "Mem = Some Block"
    and b: "SecConfig' = None \<longrightarrow> sec_valid m (SecConfig Block)" by blast
  let ?e = "Block\<lparr>Signature := H (take (unat ?L) N),
                    ServerName := take (unat ?L) N, ServerNameLength := ?L,
                    QuicVersion := v, TransportParameters := P,
                    SecConfig := (case SecConfig' of None \<Rightarrow> SecConfig Block
                                  | Some p \<Rightarrow> Some p)\<rparr>"
  let ?s1 = "s\<lparr>ServerCache := ?e # ServerCache s\<rparr>"
  from None have i': "QuicSessionServerCacheLookup s ?L N (H (take (unat ?L) N)) = None"
    by (simp add: unat_name_length)
  from set_internal_new[where H = H and Block = Block and v = v and P = P, OF s strlen_unat_le[OF n] i' c]
  obtain m1 where m1: "QuicSessionServerCacheSetStateInternal H (Some Block) S ?L N v P SecConfig' m = Some m1"
    and s1: "get_session m1 S = Some ?s1" and pres: "sec_preserved m m1"
    by blast
  have "ServerCache ?s1 = ?e # ServerCache s" by simp
  from lookup_insert[OF this, where Hash = "H (take (n mod 65536) N)" and L = ?L and N = N]
  have l1: "QuicSessionServerCacheLookup ?s1 ?L N (H (take (n mod 65536) N)) = Some 0"
    by (simp add: identity_matches_def unat_name_length)
  have "sec_valid m (SecConfig ?e)"
    using b c by (cases SecConfig') simp_all
  then have "sec_valid m1 (SecConfig (ServerCache ?s1 ! 0))"
    using sec_preserved_valid[OF pres] by simp
  from get_state_found[where H = H, OF s1 n l1 this] obtain m2 where
    "QuicSessionServerCacheGetState H S N m1 =
       Some (Some (QuicVersion (ServerCache ?s1 ! 0), TransportParameters (ServerCache ?s1 ! 0),
                   SecConfig (ServerCache ?s1 ! 0)), m2)" by blast
  then have g: "QuicSessionServerCacheGetState H S N m1 = Some (Some (v, P, SecConfig ?e), m2)"
    by simp
  from m1 mem have "QuicSessionServerCacheSetState H Mem S N v P SecConfig' m = Some m1"
    by (simp add: set_state_internal[OF n])
  with s1 g None show ?thesis by blast
qed


lemma strlen_ab: "strlen [97, 98, 0] = Some 2"
  by (simp add: strlen_def)

lemma cache_memory_session: "get_session cache_memory 4 = Some empty_session"
  by (simp add: cache_memory_def get_session_def)

lemma empty_session_lookup: "QuicSessionServerCacheLookup empty_session L N Hash = None"
  by (simp add: lookup_find empty_session_def)

text \<open>
  The claim as the spec states it, for every call, fails when the entry is new and the
  allocation fails: the update is dropped, the memory stays as it was, and the lookup
  right after it reports not-found.
\<close>

theorem cache_set_then_get_counterexample:
  "QuicSessionServerCacheSetState example_hash None 4 [97, 98, 0] 1 7 (Some 5) cache_memory =
     Some cache_memory \<and>
   QuicSessionServerCacheGetState example_hash 4 [97, 98, 0] cache_memory =
     Some (None, cache_memory)"
proof -
  have "unat (word_of_nat 2 :: uint16_t) \<le> length [97, 98, 0 :: uint8_t]" by simp
  from set_internal_dropped[OF cache_memory_session this empty_session_lookup]
  have 1: "QuicSessionServerCacheSetState example_hash None 4 [97, 98, 0] 1 7 (Some 5) cache_memory
        = Some cache_memory"
    by (simp add: set_state_internal[OF strlen_ab])
  have 2: "QuicSessionServerCacheGetState example_hash 4 [97, 98, 0] cache_memory
        = Some (None, cache_memory)"
    by (simp add: get_state_eq[OF cache_memory_session strlen_ab] empty_session_lookup)
  show ?thesis by (simp add: 1 2)
qed

text \<open>
  An instance: a first \<open>cache_set\<close> for \<open>ab\<close> on an empty cache, with a configuration.
\<close>

theorem cache_set_then_get_witness:
  "get_session cache_memory 4 = Some empty_session \<and> strlen [97, 98, 0] = Some 2 \<and>
   cache_sec_valid cache_memory (ServerCache empty_session) \<and> sec_valid cache_memory (Some 5) \<and>
   (\<exists>m1 s1 cfg m2.
      QuicSessionServerCacheSetState example_hash (Some (example_block (Some 9))) 4 [97, 98, 0] 1 7
        (Some 5) cache_memory = Some m1 \<and>
      get_session m1 4 = Some s1 \<and>
      QuicSessionServerCacheGetState example_hash 4 [97, 98, 0] m1 = Some (Some (1, 7, cfg), m2))"
proof -
  have 1: "cache_sec_valid cache_memory (ServerCache empty_session)"
    by (simp add: cache_sec_valid_def empty_session_def)
  have 2: "sec_valid cache_memory (Some 5)"
    by (simp add: sec_valid_def cache_memory_def get_sec_config_def)
  have 3: "QuicSessionServerCacheLookup empty_session (word_of_nat 2) [97, 98, 0]
             (example_hash (take (2 mod 65536) [97, 98, 0])) \<noteq> None \<or>
           (\<exists>Block. Some (example_block (Some 9)) = Some Block \<and>
              (Some (5 :: addr) = None \<longrightarrow> sec_valid cache_memory (SecConfig Block)))"
    by simp
  from cache_set_then_get[where H = example_hash and v = 1 and P = 7, OF cache_memory_session strlen_ab 1 2 3]
    cache_memory_session strlen_ab 1 2
  show ?thesis by blast
qed


text \<open>
  The new-entry path with no security configuration supplied, on a block whose
  \<open>SecConfig\<close> field happens to be null: the entry is linked with the name, the length,
  the version and the parameters, and \<open>cache_get\<close> right after it returns the version, the
  parameters and a null configuration.
\<close>

lemma cache_set_null_config_fresh:
  assumes s: "get_session m S = Some s" and n: "strlen N = Some n"
    and fresh: "QuicSessionServerCacheLookup s (word_of_nat n) N (H (take (n mod 65536) N)) = None"
    and zero: "SecConfig Block = None"
  shows "\<exists>m1. QuicSessionServerCacheSetState H (Some Block) S N v P None m = Some m1 \<and>
           get_session m1 S =
             Some (s\<lparr>ServerCache :=
                      Block\<lparr>Signature := H (take (n mod 65536) N),
                            ServerName := take (n mod 65536) N,
                            ServerNameLength := word_of_nat n,
                            QuicVersion := v, TransportParameters := P\<rparr> # ServerCache s\<rparr>) \<and>
           QuicSessionServerCacheGetState H S N m1 = Some (Some (v, P, None), m1)"
proof -
  let ?L = "word_of_nat n :: uint16_t"
  let ?e = "Block\<lparr>Signature := H (take (n mod 65536) N),
                    ServerName := take (n mod 65536) N, ServerNameLength := ?L,
                    QuicVersion := v, TransportParameters := P\<rparr>"
  let ?s1 = "s\<lparr>ServerCache := ?e # ServerCache s\<rparr>"
  from fresh have i': "QuicSessionServerCacheLookup s ?L N (H (take (unat ?L) N)) = None"
    by (simp add: unat_name_length)
  have c: "sec_valid m None" by (simp add: sec_valid_def)
  from set_internal_new[where H = H and Block = Block and v = v and P = P,
      OF s strlen_unat_le[OF n] i' c]
  obtain m1 where m1: "QuicSessionServerCacheSetStateInternal H (Some Block) S ?L N v P None m = Some m1"
    and s1: "get_session m1 S = Some ?s1"
    using zero by (auto simp: unat_name_length)
  have "ServerCache ?s1 = ?e # ServerCache s" by simp
  from lookup_insert[OF this, where Hash = "H (take (n mod 65536) N)" and L = ?L and N = N]
  have l1: "QuicSessionServerCacheLookup ?s1 ?L N (H (take (n mod 65536) N)) = Some 0"
    by (simp add: identity_matches_def unat_name_length)
  have g: "QuicSessionServerCacheGetState H S N m1 = Some (Some (v, P, None), m1)"
    using zero by (simp add: get_state_eq[OF s1 n] l1)
  from m1 have "QuicSessionServerCacheSetState H (Some Block) S N v P None m = Some m1"
    by (simp add: set_state_internal[OF n])
  with s1 g show ?thesis by blast
qed

text \<open>An instance, on a zeroed block.\<close>

lemma cache_set_null_config_zeroed_block:
  "get_session cache_memory 4 = Some empty_session \<and> strlen [97, 98, 0] = Some 2 \<and>
   QuicSessionServerCacheLookup empty_session (word_of_nat 2) [97, 98, 0]
     (example_hash (take (2 mod 65536) [97, 98, 0])) = None \<and>
   SecConfig (example_block None) = None \<and>
   (\<exists>m1. QuicSessionServerCacheSetState example_hash (Some (example_block None)) 4 [97, 98, 0] 1 7
            None cache_memory = Some m1 \<and>
         QuicSessionServerCacheGetState example_hash 4 [97, 98, 0] m1 = Some (Some (1, 7, None), m1))"
proof -
  have z: "SecConfig (example_block None) = None" by (simp add: example_block_def)
  from cache_set_null_config_fresh[where H = example_hash and v = 1 and P = 7,
      OF cache_memory_session strlen_ab empty_session_lookup z]
    cache_memory_session strlen_ab empty_session_lookup z
  show ?thesis by blast
qed

text \<open>
  When the allocation fails no entry is created, and the lookup right after the call
  reports not-found.
\<close>

lemma cache_set_null_config_dropped:
  "QuicSessionServerCacheLookup empty_session (word_of_nat 2) [97, 98, 0]
     (example_hash (take (2 mod 65536) [97, 98, 0])) = None \<and>
   QuicSessionServerCacheSetState example_hash None 4 [97, 98, 0] 1 7 None cache_memory =
     Some cache_memory \<and>
   QuicSessionServerCacheGetState example_hash 4 [97, 98, 0] cache_memory =
     Some (None, cache_memory)"
proof -
  have "unat (word_of_nat 2 :: uint16_t) \<le> length [97, 98, 0 :: uint8_t]" by simp
  from set_internal_dropped[OF cache_memory_session this empty_session_lookup]
  have 1: "QuicSessionServerCacheSetState example_hash None 4 [97, 98, 0] 1 7 None cache_memory
        = Some cache_memory"
    by (simp add: set_state_internal[OF strlen_ab])
  have 2: "QuicSessionServerCacheGetState example_hash 4 [97, 98, 0] cache_memory
        = Some (None, cache_memory)"
    by (simp add: get_state_eq[OF cache_memory_session strlen_ab] empty_session_lookup)
  show ?thesis by (simp add: 1 2 empty_session_lookup)
qed

text \<open>
  Claim C6. After \<open>cache_set\<close> with a null security configuration for an identity with
  no entry, \<open>cache_get\<close> is to return the version and the parameters with a null
  configuration. The code does not: the new-entry path writes \<open>SecConfig\<close> only when a
  configuration is supplied and the block is never zeroed, so the entry keeps what the
  block held. In the scenario of the spec, on a block whose field holds the address of a
  configuration that was never cached, \<open>cache_get\<close> hands out that configuration and
  takes a reference on it; on a block whose field points nowhere, \<open>cache_get\<close> reads
  through it and does not return.
\<close>

theorem cache_set_null_config_stale_field:
  "QuicSessionServerCacheLookup empty_session (word_of_nat 2) [97, 98, 0]
     (example_hash (take (2 mod 65536) [97, 98, 0])) = None \<and>
   QuicSessionServerCacheSetState example_hash (Some (example_block (Some 5))) 4 [97, 98, 0] 1 7
     None cache_memory = Some (stale_entry_memory (Some 5)) \<and>
   QuicSessionServerCacheGetState example_hash 4 [97, 98, 0] (stale_entry_memory (Some 5)) =
     Some (Some (1, 7, Some 5), (stale_entry_memory (Some 5))(5 \<mapsto> SecConfigObj 2)) \<and>
   QuicSessionServerCacheSetState example_hash (Some (example_block (Some 9))) 4 [97, 98, 0] 1 7
     None cache_memory = Some (stale_entry_memory (Some 9)) \<and>
   QuicSessionServerCacheGetState example_hash 4 [97, 98, 0] (stale_entry_memory (Some 9)) = None"
proof -
  have set: "QuicSessionServerCacheSetState example_hash (Some (example_block g)) 4 [97, 98, 0] 1 7
     None cache_memory = Some (stale_entry_memory g)" for g
    by (simp add: QuicSessionServerCacheSetState_def strlen_def
          QuicSessionServerCacheSetStateInternal_def QuicHashSimple_def cache_memory_session
          empty_session_lookup)
       (simp add: example_block_def QuicHashtableInsert_def memcpy_def stale_session_def
          example_hash_def stale_entry_memory_def, simp add: empty_session_def)
  have s: "get_session (stale_entry_memory g) 4 = Some (stale_session g)" for g
    by (simp add: stale_entry_memory_def get_session_def)
  have l: "QuicSessionServerCacheLookup (stale_session g) 2 [97, 98, 0] 2 = Some 0" for g
    by (simp add: lookup_find stale_session_def identity_matches_def)
  have g5: "QuicSessionServerCacheGetState example_hash 4 [97, 98, 0] (stale_entry_memory (Some 5)) =
     Some (Some (1, 7, Some 5), (stale_entry_memory (Some 5))(5 \<mapsto> SecConfigObj 2))"
    using l [of "Some 5"]
    by (simp add: get_state_eq[OF s strlen_ab] example_hash_def)
       (simp add: stale_session_def stale_entry_memory_def cache_memory_def get_sec_config_def)
  have g9: "QuicSessionServerCacheGetState example_hash 4 [97, 98, 0] (stale_entry_memory (Some 9)) =
     None"
    using l [of "Some 9"]
    by (simp add: get_state_eq[OF s strlen_ab] example_hash_def)
       (simp add: stale_session_def stale_entry_memory_def cache_memory_def get_sec_config_def)
  show ?thesis by (simp add: set g5 g9 empty_session_lookup)
qed

lemma cache_wf_hit:
  assumes wf: "cache_wf H T" and e: "e \<in> set T"
  shows "(Signature e = H (take (unat L) N) \<and> identity_matches e L N) =
         (ServerNameLength e = L \<and> ServerName e = take (unat L) N)"
proof -
  from wf e have len: "length (ServerName e) = unat (ServerNameLength e)"
    and sig: "Signature e = H (ServerName e)"
    by (auto simp: cache_wf_def list_all_iff)
  show ?thesis
  proof
    assume "Signature e = H (take (unat L) N) \<and> identity_matches e L N"
    then have l: "ServerNameLength e = L" and t: "take (unat L) (ServerName e) = take (unat L) N"
      by (simp_all add: identity_matches_def)
    from len l have "take (unat L) (ServerName e) = ServerName e" by simp
    with l t show "ServerNameLength e = L \<and> ServerName e = take (unat L) N" by simp
  next
    assume "ServerNameLength e = L \<and> ServerName e = take (unat L) N"
    then show "Signature e = H (take (unat L) N) \<and> identity_matches e L N"
      using sig by (simp add: identity_matches_def)
  qed
qed

text \<open>
  Claim C5. On a well-formed table whose cached configuration pointers are null or
  live, \<open>cache_get\<close> returns; it reports found exactly when an entry with the length and
  the bytes of the identity exists; on the found path it hands out the version, the
  parameters and the configuration pointer of such an entry, and the memory differs from
  before only by one more reference on that configuration (not at all when the pointer
  is null); on the not-found path the memory is unchanged.
\<close>

theorem cache_get_found_iff:
  assumes s: "get_session m S = Some s" and n: "strlen N = Some n"
    and wf: "cache_wf H (ServerCache s)" and cv: "cache_sec_valid m (ServerCache s)"
  shows "\<exists>r m'. QuicSessionServerCacheGetState H S N m = Some (r, m') \<and>
           ((r \<noteq> None) =
              (\<exists>e \<in> set (ServerCache s).
                 ServerNameLength e = word_of_nat n \<and> ServerName e = take (n mod 65536) N)) \<and>
           (case r of
              None \<Rightarrow> m' = m
            | Some (ver, par, cfg) \<Rightarrow>
                (\<exists>e \<in> set (ServerCache s).
                   ServerNameLength e = word_of_nat n \<and> ServerName e = take (n mod 65536) N \<and>
                   ver = QuicVersion e \<and> par = TransportParameters e \<and> cfg = SecConfig e) \<and>
                (case cfg of
                   None \<Rightarrow> m' = m
                 | Some p \<Rightarrow>
                     (\<exists>k. get_sec_config m p = Some k \<and> m' = m(p \<mapsto> SecConfigObj (k + 1)))))"
proof (cases "QuicSessionServerCacheLookup s (word_of_nat n) N (H (take (n mod 65536) N))")
  case None
  let ?L = "word_of_nat n :: uint16_t"
  from None have "\<forall>e \<in> set (ServerCache s).
      \<not> (Signature e = H (take (unat ?L) N) \<and> identity_matches e ?L N)"
    by (simp add: lookup_None unat_name_length)
  then have "\<not> (\<exists>e \<in> set (ServerCache s).
      ServerNameLength e = ?L \<and> ServerName e = take (n mod 65536) N)"
    using cache_wf_hit[OF wf, where L = ?L and N = N] by (auto simp: unat_name_length)
  with None show ?thesis
    by (simp add: get_state_eq[OF s n])
next
  case (Some i)
  let ?L = "word_of_nat n :: uint16_t"
  let ?e = "ServerCache s ! i"
  from Some have i': "QuicSessionServerCacheLookup s ?L N (H (take (unat ?L) N)) = Some i"
    by (simp add: unat_name_length)
  from lookup_Some[OF i'] have il: "i < length (ServerCache s)"
    and hit: "Signature ?e = H (take (unat ?L) N) \<and> identity_matches ?e ?L N" by simp_all
  from il have mem: "?e \<in> set (ServerCache s)" by simp
  from hit cache_wf_hit[OF wf mem, where L = ?L and N = N]
  have id: "ServerNameLength ?e = ?L \<and> ServerName ?e = take (n mod 65536) N"
    by (simp add: unat_name_length)
  have q: "sec_valid m (SecConfig ?e)" using cv il by (rule cache_sec_valid_nth)
  show ?thesis
  proof (cases "SecConfig ?e")
    case None
    with Some mem id show ?thesis
      by (auto simp add: get_state_eq[OF s n])
  next
    case (Some p)
    with q obtain k where k: "get_sec_config m p = Some k" by (auto simp: sec_valid_def)
    with Some \<open>QuicSessionServerCacheLookup s (word_of_nat n) N (H (take (n mod 65536) N)) = Some i\<close>
      mem id show ?thesis
      by (auto simp add: get_state_eq[OF s n])
  qed
qed


lemma same_sec_configs_refl: "same_sec_configs m m"
  by (simp add: same_sec_configs_def)

lemma same_sec_configs_session:
  "get_session m S = Some s \<Longrightarrow> same_sec_configs m m' \<Longrightarrow>
   same_sec_configs m (m'(S \<mapsto> SessionObj s'))"
  by (auto simp: same_sec_configs_def get_sec_config_def get_session_def
      split: option.splits object.splits)

lemma same_sec_configs_addref:
  "QuicTlsSecConfigAddRef p m = Some m' \<Longrightarrow> same_sec_configs m m'"
  by (auto simp: same_sec_configs_def QuicTlsSecConfigAddRef_def get_sec_config_upd
      split: Option.bind_splits if_splits)

lemma same_sec_configs_release:
  "QuicTlsSecConfigRelease p m = Some m' \<Longrightarrow> same_sec_configs m m'"
  by (auto simp: same_sec_configs_def QuicTlsSecConfigRelease_def get_sec_config_upd
      split: Option.bind_splits if_splits)

lemma same_sec_configs_trans:
  "same_sec_configs m m' \<Longrightarrow> same_sec_configs m' m'' \<Longrightarrow> same_sec_configs m m''"
  by (simp add: same_sec_configs_def)

lemma addref_session: "QuicTlsSecConfigAddRef p m = Some m' \<Longrightarrow> get_session m' S = get_session m S"
  by (auto simp: QuicTlsSecConfigAddRef_def get_session_upd_sec split: Option.bind_splits)

lemma release_session: "QuicTlsSecConfigRelease p m = Some m' \<Longrightarrow> get_session m' S = get_session m S"
  by (auto simp: QuicTlsSecConfigRelease_def get_session_upd_sec split: Option.bind_splits)

lemma set_internal_frame:
  assumes r: "QuicSessionServerCacheSetStateInternal H Mem S L N v P c m = Some m1"
    and s: "get_session m S = Some s"
  shows "\<exists>T'. get_session m1 S = Some (s\<lparr>ServerCache := T'\<rparr>) \<and> same_sec_configs m m1 \<and>
           (case QuicSessionServerCacheLookup s L N (H (take (unat L) N)) of
              Some i \<Rightarrow> \<exists>e. T' = (ServerCache s)[i := e] \<and>
                          Signature e = Signature (ServerCache s ! i) \<and>
                          ServerNameLength e = ServerNameLength (ServerCache s ! i) \<and>
                          ServerName e = ServerName (ServerCache s ! i)
            | None \<Rightarrow> T' = ServerCache s \<or>
                (\<exists>e. T' = e # ServerCache s \<and> Signature e = H (take (unat L) N) \<and>
                     ServerNameLength e = L \<and> ServerName e = take (unat L) N))"
proof -
  from r have len: "unat L \<le> length N"
    by (auto simp: QuicSessionServerCacheSetStateInternal_def QuicHashSimple_def
        split: Option.bind_splits if_splits)
  show ?thesis
  proof (cases "QuicSessionServerCacheLookup s L N (H (take (unat L) N))")
    case (Some i)
    let ?e = "ServerCache s ! i"
    have "\<exists>m0 c'. same_sec_configs m m0 \<and> get_session m0 S = Some s \<and>
            m1 = m0(S \<mapsto> SessionObj (s\<lparr>ServerCache := (ServerCache s)
                 [i := ?e\<lparr>QuicVersion := v, TransportParameters := P, SecConfig := c'\<rparr>]\<rparr>))"
    proof (cases c)
      case None
      from None Some r s len
      have "m1 = m(S \<mapsto> SessionObj (s\<lparr>ServerCache := (ServerCache s)
                 [i := ?e\<lparr>QuicVersion := v, TransportParameters := P,
                           SecConfig := SecConfig ?e\<rparr>]\<rparr>))"
        by (auto simp: QuicSessionServerCacheSetStateInternal_def QuicHashSimple_def)
      with s same_sec_configs_refl[of m] show ?thesis by blast
    next
      case (Some p)
      from r s len \<open>QuicSessionServerCacheLookup s L N (H (take (unat L) N)) = Some i\<close> Some
      obtain m0 m0' where
        m0: "(case SecConfig ?e of None \<Rightarrow> Some m | Some q \<Rightarrow> QuicTlsSecConfigRelease q m) = Some m0"
        and m0': "QuicTlsSecConfigAddRef p m0 = Some m0'"
        and m1: "m1 = m0'(S \<mapsto> SessionObj (s\<lparr>ServerCache := (ServerCache s)
                 [i := ?e\<lparr>QuicVersion := v, TransportParameters := P, SecConfig := Some p\<rparr>]\<rparr>))"
        by (auto simp: QuicSessionServerCacheSetStateInternal_def QuicHashSimple_def
            split: Option.bind_splits)
      from m0 have a: "same_sec_configs m m0 \<and> get_session m0 S = Some s"
        using s by (auto split: option.splits simp: same_sec_configs_refl
            same_sec_configs_release release_session)
      with m0' have b: "same_sec_configs m m0' \<and> get_session m0' S = Some s"
        by (auto simp: addref_session intro: same_sec_configs_trans same_sec_configs_addref)
      with m1 show ?thesis by blast
    qed
    then obtain m0 c' where a: "same_sec_configs m m0" and b: "get_session m0 S = Some s"
      and m1: "m1 = m0(S \<mapsto> SessionObj (s\<lparr>ServerCache := (ServerCache s)
                 [i := ?e\<lparr>QuicVersion := v, TransportParameters := P, SecConfig := c'\<rparr>]\<rparr>))"
      by blast
    let ?e' = "?e\<lparr>QuicVersion := v, TransportParameters := P, SecConfig := c'\<rparr>"
    have 1: "get_session m1 S = Some (s\<lparr>ServerCache := (ServerCache s)[i := ?e']\<rparr>)"
      unfolding m1 by (simp add: get_session_upd)
    have 2: "same_sec_configs m m1" unfolding m1
      using a s by (auto intro: same_sec_configs_session)
    have 3: "\<exists>e. (ServerCache s)[i := ?e'] = (ServerCache s)[i := e] \<and>
                Signature e = Signature ?e \<and> ServerNameLength e = ServerNameLength ?e \<and>
                ServerName e = ServerName ?e"
      by (rule exI[where x = ?e']) simp
    from 1 2 3 Some show ?thesis
      by (intro exI[where x = "(ServerCache s)[i := ?e']"]) simp
  next
    case None
    show ?thesis
    proof (cases Mem)
      case None
      with \<open>QuicSessionServerCacheLookup s L N (H (take (unat L) N)) = None\<close> r s len
      have "m1 = m"
        by (auto simp: QuicSessionServerCacheSetStateInternal_def QuicHashSimple_def)
      with s \<open>QuicSessionServerCacheLookup s L N (H (take (unat L) N)) = None\<close> show ?thesis
        by (intro exI[where x = "ServerCache s"]) (simp add: same_sec_configs_refl)
    next
      case (Some Block)
      have "\<exists>m0 c'. same_sec_configs m m0 \<and>
              m1 = m0(S \<mapsto> SessionObj (s\<lparr>ServerCache :=
                   Block\<lparr>Signature := H (take (unat L) N), ServerName := take (unat L) N,
                         ServerNameLength := L, QuicVersion := v, TransportParameters := P,
                         SecConfig := c'\<rparr> # ServerCache s\<rparr>))"
      proof (cases c)
        case None
        from r s len \<open>QuicSessionServerCacheLookup s L N (H (take (unat L) N)) = None\<close> Some None
        have "m1 = m(S \<mapsto> SessionObj (s\<lparr>ServerCache :=
                   Block\<lparr>Signature := H (take (unat L) N), ServerName := take (unat L) N,
                         ServerNameLength := L, QuicVersion := v, TransportParameters := P,
                         SecConfig := SecConfig Block\<rparr> # ServerCache s\<rparr>))"
          by (auto simp: QuicSessionServerCacheSetStateInternal_def QuicHashSimple_def
            QuicHashtableInsert_def memcpy_def)
        with same_sec_configs_refl[of m] show ?thesis by blast
      next
        case (Some p)
        from r s len \<open>QuicSessionServerCacheLookup s L N (H (take (unat L) N)) = None\<close>
          \<open>Mem = Some Block\<close> Some
        have "\<exists>m0. QuicTlsSecConfigAddRef p m = Some m0 \<and>
          m1 = m0(S \<mapsto> SessionObj (s\<lparr>ServerCache :=
                   Block\<lparr>Signature := H (take (unat L) N), ServerName := take (unat L) N,
                         ServerNameLength := L, QuicVersion := v, TransportParameters := P,
                         SecConfig := Some p\<rparr> # ServerCache s\<rparr>))"
          by (auto simp: QuicSessionServerCacheSetStateInternal_def QuicHashSimple_def
            QuicHashtableInsert_def memcpy_def split: Option.bind_splits)
        then show ?thesis using same_sec_configs_addref by blast
      qed
      then obtain m0 c' where a: "same_sec_configs m m0"
        and m1: "m1 = m0(S \<mapsto> SessionObj (s\<lparr>ServerCache :=
                   Block\<lparr>Signature := H (take (unat L) N), ServerName := take (unat L) N,
                         ServerNameLength := L, QuicVersion := v, TransportParameters := P,
                         SecConfig := c'\<rparr> # ServerCache s\<rparr>))"
        by blast
      let ?e' = "Block\<lparr>Signature := H (take (unat L) N), ServerName := take (unat L) N,
                         ServerNameLength := L, QuicVersion := v, TransportParameters := P,
                         SecConfig := c'\<rparr>"
      have 2: "same_sec_configs m m1" unfolding m1
        using a s by (auto intro: same_sec_configs_session)
      have 1: "get_session m1 S = Some (s\<lparr>ServerCache := ?e' # ServerCache s\<rparr>)"
        unfolding m1 by (simp add: get_session_upd)
      have 3: "\<exists>e. ?e' # ServerCache s = e # ServerCache s \<and> Signature e = H (take (unat L) N) \<and>
                     ServerNameLength e = L \<and> ServerName e = take (unat L) N"
        by (rule exI[where x = ?e']) simp
      from 1 2 3 \<open>QuicSessionServerCacheLookup s L N (H (take (unat L) N)) = None\<close> show ?thesis
        by (intro exI[where x = "?e' # ServerCache s"]) simp
    qed
  qed
qed


text \<open>
  Well-formedness of the table holds for the empty table of a new session and is kept by
  every call of the set operation that returns.
\<close>

lemma cache_wf_empty: "cache_wf H []"
  by (simp add: cache_wf_def)

lemma set_internal_preserves_wf:
  assumes r: "QuicSessionServerCacheSetStateInternal H Mem S L N v P c m = Some m1"
    and s: "get_session m S = Some s" and wf: "cache_wf H (ServerCache s)"
  shows "\<exists>s1. get_session m1 S = Some s1 \<and> cache_wf H (ServerCache s1)"
proof -
  from r have len: "unat L \<le> length N"
    by (auto simp: QuicSessionServerCacheSetStateInternal_def QuicHashSimple_def
        split: Option.bind_splits if_splits)
  from set_internal_frame[OF r s] obtain T' where
    s1: "get_session m1 S = Some (s\<lparr>ServerCache := T'\<rparr>)"
    and fr: "case QuicSessionServerCacheLookup s L N (H (take (unat L) N)) of
              Some i \<Rightarrow> \<exists>e. T' = (ServerCache s)[i := e] \<and>
                          Signature e = Signature (ServerCache s ! i) \<and>
                          ServerNameLength e = ServerNameLength (ServerCache s ! i) \<and>
                          ServerName e = ServerName (ServerCache s ! i)
            | None \<Rightarrow> T' = ServerCache s \<or>
                (\<exists>e. T' = e # ServerCache s \<and> Signature e = H (take (unat L) N) \<and>
                     ServerNameLength e = L \<and> ServerName e = take (unat L) N)"
    by blast
  have "cache_wf H T'"
  proof (cases "QuicSessionServerCacheLookup s L N (H (take (unat L) N))")
    case (Some i)
    with fr obtain e where T': "T' = (ServerCache s)[i := e]"
      and k: "Signature e = Signature (ServerCache s ! i)"
      "ServerNameLength e = ServerNameLength (ServerCache s ! i)"
      "ServerName e = ServerName (ServerCache s ! i)" by auto
    from lookup_Some[OF Some] have il: "i < length (ServerCache s)" by simp
    with wf k show ?thesis
      unfolding T' cache_wf_def list_all_length by (auto simp: nth_list_update)
  next
    case None
    with fr len wf show ?thesis by (auto simp: cache_wf_def)
  qed
  with s1 show ?thesis by simp
qed

lemma get_state_answer:
  assumes s: "get_session m S = Some s" and n: "strlen N = Some n"
  shows "map_option fst (QuicSessionServerCacheGetState H S N m) =
     (case QuicSessionServerCacheLookup s (word_of_nat n) N (H (take (n mod 65536) N)) of
        None \<Rightarrow> Some None
      | Some j \<Rightarrow>
          if sec_valid m (SecConfig (ServerCache s ! j))
          then Some (Some (QuicVersion (ServerCache s ! j), TransportParameters (ServerCache s ! j),
                           SecConfig (ServerCache s ! j)))
          else None)"
  by (auto simp: get_state_eq[OF s n] sec_valid_def split: option.splits)

lemma same_sec_configs_valid: "same_sec_configs m m' \<Longrightarrow> sec_valid m' x = sec_valid m x"
  by (auto simp: same_sec_configs_def sec_valid_def split: option.splits)

lemma cache_keys_list_update:
  assumes "i < length T" and "Signature e = Signature (T ! i)"
    and "ServerNameLength e = ServerNameLength (T ! i)" and "ServerName e = ServerName (T ! i)"
  shows "cache_keys (T[i := e]) = cache_keys T"
  using assms by (simp add: cache_keys_def map_update list_update_same_conv)

text \<open>
  Claim C4. The lookup returns the first entry of the table with the signature, the
  length and the bytes asked for: equal length and equal bytes decide, the hash only
  selects the chain. For two names with different identities and the same hash, a
  \<open>cache_set\<close> for the first that returns leaves the answer of \<open>cache_get\<close> for the second
  as it was: not-found if it was not set, its own values if it was.
\<close>

theorem cache_identities_do_not_interfere:
  assumes s: "get_session m S = Some s"
    and na: "strlen A = Some na" and nb: "strlen B = Some nb"
    and diff: "(word_of_nat na :: uint16_t, take (na mod 65536) A) \<noteq>
               (word_of_nat nb, take (nb mod 65536) B)"
    and coll: "H (take (na mod 65536) A) = H (take (nb mod 65536) B)"
    and r: "QuicSessionServerCacheSetState H Mem S A v P c m = Some m1"
  shows "QuicSessionServerCacheLookup s L N Hash =
           List.find (\<lambda>i. Signature (ServerCache s ! i) = Hash \<and>
                          ServerNameLength (ServerCache s ! i) = L \<and>
                          take (unat L) (ServerName (ServerCache s ! i)) = take (unat L) N)
             [0..<length (ServerCache s)] \<and>
         map_option fst (QuicSessionServerCacheGetState H S B m1) =
         map_option fst (QuicSessionServerCacheGetState H S B m)"
proof
  show "QuicSessionServerCacheLookup s L N Hash =
           List.find (\<lambda>i. Signature (ServerCache s ! i) = Hash \<and>
                          ServerNameLength (ServerCache s ! i) = L \<and>
                          take (unat L) (ServerName (ServerCache s ! i)) = take (unat L) N)
             [0..<length (ServerCache s)]"
    by (simp add: lookup_find identity_matches_def)
next
  let ?LA = "word_of_nat na :: uint16_t" and ?LB = "word_of_nat nb :: uint16_t"
  let ?HB = "H (take (nb mod 65536) B)"
  let ?T = "ServerCache s"
  have ua: "unat ?LA = na mod 65536" and ub: "unat ?LB = nb mod 65536"
    by (simp_all add: unat_name_length)
  from r have r': "QuicSessionServerCacheSetStateInternal H Mem S ?LA A v P c m = Some m1"
    by (simp add: set_state_internal[OF na])
  from set_internal_frame[OF r' s] obtain T' where
    s1: "get_session m1 S = Some (s\<lparr>ServerCache := T'\<rparr>)" and sec: "same_sec_configs m m1"
    and fr: "case QuicSessionServerCacheLookup s ?LA A (H (take (unat ?LA) A)) of
              Some i \<Rightarrow> \<exists>e. T' = ?T[i := e] \<and> Signature e = Signature (?T ! i) \<and>
                          ServerNameLength e = ServerNameLength (?T ! i) \<and>
                          ServerName e = ServerName (?T ! i)
            | None \<Rightarrow> T' = ?T \<or>
                (\<exists>e. T' = e # ?T \<and> Signature e = H (take (unat ?LA) A) \<and>
                     ServerNameLength e = ?LA \<and> ServerName e = take (unat ?LA) A)"
    by blast
  let ?s1 = "s\<lparr>ServerCache := T'\<rparr>"
  let ?ans = "\<lambda>T r. case r of None \<Rightarrow> None
                 | Some j \<Rightarrow> Some (QuicVersion (T ! j), TransportParameters (T ! j), SecConfig (T ! j))"
  have both: "\<not> (identity_matches e ?LA A \<and> identity_matches e ?LB B)" for e
  proof
    assume a: "identity_matches e ?LA A \<and> identity_matches e ?LB B"
    then have "ServerNameLength e = ?LA" and "ServerNameLength e = ?LB"
      unfolding identity_matches_def by blast+
    then have l: "?LA = ?LB" by (rule trans[OF sym])
    then have "unat ?LA = unat ?LB" by simp
    then have e: "na mod 65536 = nb mod 65536" by (simp only: ua ub)
    from a have "take (na mod 65536) (ServerName e) = take (na mod 65536) A"
      and "take (nb mod 65536) (ServerName e) = take (nb mod 65536) B"
      unfolding identity_matches_def ua ub by blast+
    then have "take (na mod 65536) A = take (nb mod 65536) B"
      unfolding e by (rule trans[OF sym])
    with l diff show False by simp
  qed
  have key: "?ans T' (QuicSessionServerCacheLookup ?s1 ?LB B ?HB) =
             ?ans ?T (QuicSessionServerCacheLookup s ?LB B ?HB)"
  proof (cases "QuicSessionServerCacheLookup s ?LA A (H (take (unat ?LA) A))")
    case (Some i)
    with fr obtain e where T': "T' = ?T[i := e]" and k: "Signature e = Signature (?T ! i)"
      "ServerNameLength e = ServerNameLength (?T ! i)" "ServerName e = ServerName (?T ! i)"
      by auto
    from lookup_Some[OF Some] have il: "i < length ?T" and ia: "identity_matches (?T ! i) ?LA A"
      by simp_all
    have "cache_keys (ServerCache ?s1) = cache_keys ?T"
      using cache_keys_list_update[OF il k] T' by simp
    from lookup_keys[OF this]
    have l: "QuicSessionServerCacheLookup ?s1 ?LB B ?HB = QuicSessionServerCacheLookup s ?LB B ?HB" .
    show ?thesis
    proof (cases "QuicSessionServerCacheLookup s ?LB B ?HB")
      case None
      with l show ?thesis by simp
    next
      case (Some j)
      from Some have "QuicSessionServerCacheLookup s ?LB B (H (take (unat ?LB) B)) = Some j"
        by (simp add: ub)
      from lookup_Some[OF this] have "identity_matches (?T ! j) ?LB B" by simp
      with ia both have "j \<noteq> i" by blast
      with T' have "T' ! j = ?T ! j" by simp
      with l Some show ?thesis by simp
    qed
  next
    case None
    with fr consider "T' = ?T" |
      e where "T' = e # ?T" "Signature e = H (take (unat ?LA) A)" "ServerNameLength e = ?LA"
        "ServerName e = take (unat ?LA) A" by auto
    then show ?thesis
    proof cases
      case 1
      then show ?thesis by (simp split: option.splits)
    next
      case 2
      have "identity_matches e ?LA A" using 2 by (simp add: identity_matches_def)
      with both have nb': "\<not> identity_matches e ?LB B" by blast
      have "ServerCache ?s1 = e # ServerCache s" using 2 by simp
      from lookup_insert[OF this, where Hash = ?HB and L = ?LB and N = B] nb'
      have "QuicSessionServerCacheLookup ?s1 ?LB B ?HB =
            map_option Suc (QuicSessionServerCacheLookup s ?LB B ?HB)" by simp
      with 2 show ?thesis by (simp split: option.splits)
    qed
  qed
  have "map_option fst (QuicSessionServerCacheGetState H S B m1) =
        (case QuicSessionServerCacheLookup ?s1 ?LB B ?HB of None \<Rightarrow> Some None
         | Some j \<Rightarrow> if sec_valid m (SecConfig (T' ! j))
             then Some (?ans T' (Some j)) else None)"
    by (auto simp add: get_state_answer[OF s1 nb] same_sec_configs_valid[OF sec]
        split: option.splits)
  also have "\<dots> = (case QuicSessionServerCacheLookup s ?LB B ?HB of None \<Rightarrow> Some None
         | Some j \<Rightarrow> if sec_valid m (SecConfig (?T ! j))
             then Some (?ans ?T (Some j)) else None)"
    using key by (auto split: option.splits)
  also have "\<dots> = map_option fst (QuicSessionServerCacheGetState H S B m)"
    by (auto simp add: get_state_answer[OF s nb] split: option.splits)
  finally show "map_option fst (QuicSessionServerCacheGetState H S B m1) =
         map_option fst (QuicSessionServerCacheGetState H S B m)" .
qed


lemma lookup_take:
  "QuicSessionServerCacheLookup s L N Hash =
   QuicSessionServerCacheLookup s L (take (unat L) N) Hash"
  by (simp add: lookup_find identity_matches_def)

lemma set_internal_take:
  assumes "unat L \<le> length N"
  shows "QuicSessionServerCacheSetStateInternal H Mem S L N v P c m =
         QuicSessionServerCacheSetStateInternal H Mem S L (take (unat L) N) v P c m"
  using assms
  by (simp add: QuicSessionServerCacheSetStateInternal_def QuicHashSimple_def memcpy_def
      lookup_take[where N = N] Let_def cong: option.case_cong)

lemma word_of_nat_mod: "(word_of_nat (n mod 65536) :: uint16_t) = word_of_nat n"
  by (simp add: word_unat_eq_iff unat_name_length)

lemma find_nth:
  "map_option (\<lambda>i. T ! i) (List.find (\<lambda>i. P (T ! i)) [0..<length T]) = List.find P T"
proof (induction T)
  case Nil
  show ?case by simp
next
  case (Cons x T)
  have u: "[0..<length (x # T)] = 0 # map Suc [0..<length T]"
    by (simp add: upt_conv_Cons map_Suc_upt del: upt_Suc)
  show ?case
    unfolding u using Cons.IH
    by (simp add: find_map_option option.map_comp comp_def)
qed

lemma lookup_entry:
  assumes wf: "cache_wf H (ServerCache s)"
  shows "map_option (\<lambda>i. ServerCache s ! i)
           (QuicSessionServerCacheLookup s L N (H (take (unat L) N))) =
         List.find (\<lambda>e. ServerNameLength e = L \<and> ServerName e = take (unat L) N) (ServerCache s)"
proof -
  have "map_option (\<lambda>i. ServerCache s ! i)
           (QuicSessionServerCacheLookup s L N (H (take (unat L) N))) =
        List.find (\<lambda>e. Signature e = H (take (unat L) N) \<and> identity_matches e L N) (ServerCache s)"
    unfolding lookup_find by (rule find_nth)
  also have "\<dots> = List.find (\<lambda>e. ServerNameLength e = L \<and> ServerName e = take (unat L) N)
      (ServerCache s)"
    by (rule find_cong[OF refl]) (rule cache_wf_hit[OF wf])
  finally show ?thesis .
qed

lemma get_state_on_identity:
  assumes s: "get_session m S = Some s" and n: "strlen N = Some n"
    and wf: "cache_wf H (ServerCache s)"
  shows "QuicSessionServerCacheGetState H S N m =
         cache_get_on_identity S (word_of_nat (n mod 65536)) (take (n mod 65536) N) m"
proof -
  let ?L = "word_of_nat n :: uint16_t"
  have e: "List.find (\<lambda>e. ServerNameLength e = ?L \<and> ServerName e = take (n mod 65536) N)
             (ServerCache s) =
           map_option (\<lambda>i. ServerCache s ! i)
             (QuicSessionServerCacheLookup s ?L N (H (take (n mod 65536) N)))"
    using lookup_entry[OF wf, of ?L N] by (simp add: unat_name_length)
  show ?thesis
    by (cases "QuicSessionServerCacheLookup s ?L N (H (take (n mod 65536) N))")
       (simp_all add: get_state_eq[OF s n] cache_get_on_identity_def s word_of_nat_mod e
          split: option.splits)
qed

lemma get_state_found_iff_unat:
  assumes s: "get_session m S = Some s" and n: "strlen N = Some n"
    and wf: "cache_wf H (ServerCache s)" and cv: "cache_sec_valid m (ServerCache s)"
  shows "\<exists>r m'. QuicSessionServerCacheGetState H S N m = Some (r, m') \<and>
           (r \<noteq> None) = (\<exists>e \<in> set (ServerCache s).
              unat (ServerNameLength e) = n mod 65536 \<and> ServerName e = take (n mod 65536) N)"
proof -
  let ?L = "word_of_nat n :: uint16_t"
  have u: "(ServerNameLength e = ?L) = (unat (ServerNameLength e) = n mod 65536)"
    for e :: QUIC_SERVER_CACHE
    by (simp add: word_unat_eq_iff unat_name_length)
  show ?thesis
  proof (cases "QuicSessionServerCacheLookup s ?L N (H (take (n mod 65536) N))")
    case None
    then have "\<forall>e \<in> set (ServerCache s).
        \<not> (Signature e = H (take (unat ?L) N) \<and> identity_matches e ?L N)"
      by (simp add: lookup_None unat_name_length)
    then have "\<not> (\<exists>e \<in> set (ServerCache s).
        ServerNameLength e = ?L \<and> ServerName e = take (n mod 65536) N)"
      using cache_wf_hit[OF wf, where L = ?L and N = N] by (auto simp: unat_name_length)
    with None show ?thesis
      by (simp add: get_state_eq[OF s n] u)
  next
    case (Some i)
    let ?e = "ServerCache s ! i"
    from Some have i': "QuicSessionServerCacheLookup s ?L N (H (take (unat ?L) N)) = Some i"
      by (simp add: unat_name_length)
    from lookup_Some[OF i'] have il: "i < length (ServerCache s)"
      and hit: "Signature ?e = H (take (unat ?L) N) \<and> identity_matches ?e ?L N" by simp_all
    from il have mem: "?e \<in> set (ServerCache s)" by simp
    from hit cache_wf_hit[OF wf mem, where L = ?L and N = N]
    have id: "unat (ServerNameLength ?e) = n mod 65536 \<and> ServerName ?e = take (n mod 65536) N"
      by (simp add: unat_name_length u)
    have q: "sec_valid m (SecConfig ?e)" using cv il by (rule cache_sec_valid_nth)
    from get_state_found[where H = H, OF s n Some q] obtain m' where
      "QuicSessionServerCacheGetState H S N m =
         Some (Some (QuicVersion ?e, TransportParameters ?e, SecConfig ?e), m')" by blast
    with mem id show ?thesis by auto
  qed
qed


lemma same_identity_same_calls:
  assumes na: "strlen A = Some la" and nb: "strlen B = Some lb"
    and l: "lb = la mod 65536" and t: "take lb B = take lb A"
  shows "QuicSessionServerCacheGetState H S B m = QuicSessionServerCacheGetState H S A m \<and>
         QuicSessionServerCacheSetState H Mem S B v P c m =
           QuicSessionServerCacheSetState H Mem S A v P c m"
proof
  let ?L = "word_of_nat la :: uint16_t"
  have ua: "unat ?L = la mod 65536" by (simp add: unat_name_length)
  have lb: "(word_of_nat lb :: uint16_t) = ?L" unfolding l by (rule word_of_nat_mod)
  have A: "QuicSessionServerCacheSetState H Mem S A v P c m =
           QuicSessionServerCacheSetStateInternal H Mem S ?L (take (la mod 65536) A) v P c m"
    using set_internal_take[OF strlen_unat_le[OF na], where H = H]
    by (simp add: set_state_internal[OF na] ua)
  have "QuicSessionServerCacheSetState H Mem S B v P c m =
           QuicSessionServerCacheSetStateInternal H Mem S ?L (take (la mod 65536) B) v P c m"
    using set_internal_take[OF strlen_unat_le[OF nb], where H = H]
    by (simp add: set_state_internal[OF nb] lb ua)
  with A t l show "QuicSessionServerCacheSetState H Mem S B v P c m =
           QuicSessionServerCacheSetState H Mem S A v P c m" by simp
  have hb: "QuicHashSimple H ?L B = Some (H (take (la mod 65536) A))"
    using strlen_hash[OF nb, of H] t l by (simp add: word_of_nat_mod)
  have ha: "QuicHashSimple H ?L A = Some (H (take (la mod 65536) A))"
    using strlen_hash[OF na, of H] by simp
  have lk: "QuicSessionServerCacheLookup s ?L B Hash = QuicSessionServerCacheLookup s ?L A Hash"
    for s Hash
    using lookup_take[of s ?L B Hash] lookup_take[of s ?L A Hash] t l by (simp add: ua)
  show "QuicSessionServerCacheGetState H S B m = QuicSessionServerCacheGetState H S A m"
    by (simp add: QuicSessionServerCacheGetState_def na nb lb ha hb lk)
qed

text \<open>
  Claim C10. With \<open>la\<close> the \<open>strlen\<close> of the name, the length handed on is \<open>la\<close> modulo
  \<open>2^16\<close>. \<open>cache_set\<close> is the internal operation on the length \<open>la mod 2^16\<close> and the
  first \<open>la mod 2^16\<close> bytes. On a well-formed table \<open>cache_get\<close> is the lookup of the
  identity with that length and those bytes, and it reports found exactly when an entry
  with a length of \<open>la mod 2^16\<close> and those bytes exists. A second name whose \<open>strlen\<close> is
  \<open>la mod 2^16\<close> and which starts with the same bytes is indistinguishable from the first,
  for \<open>cache_get\<close> and for \<open>cache_set\<close>.
\<close>

theorem name_length_truncated:
  assumes na: "strlen A = Some la"
  shows "unat (word_of_nat la :: uint16_t) = la mod 65536 \<and>
         QuicSessionServerCacheSetState H Mem S A v P c m =
           QuicSessionServerCacheSetStateInternal H Mem S (word_of_nat (la mod 65536))
             (take (la mod 65536) A) v P c m \<and>
         (get_session m S = Some s \<and> cache_wf H (ServerCache s) \<longrightarrow>
            QuicSessionServerCacheGetState H S A m =
              cache_get_on_identity S (word_of_nat (la mod 65536)) (take (la mod 65536) A) m \<and>
            (cache_sec_valid m (ServerCache s) \<longrightarrow>
               (\<exists>r m'. QuicSessionServerCacheGetState H S A m = Some (r, m') \<and>
                  (r \<noteq> None) =
                    (\<exists>e \<in> set (ServerCache s).
                       unat (ServerNameLength e) = la mod 65536 \<and>
                       ServerName e = take (la mod 65536) A)))) \<and>
         (strlen B = Some lb \<and> lb = la mod 65536 \<and> take lb B = take lb A \<longrightarrow>
            QuicSessionServerCacheGetState H S B m = QuicSessionServerCacheGetState H S A m \<and>
            QuicSessionServerCacheSetState H Mem S B v P c m =
              QuicSessionServerCacheSetState H Mem S A v P c m)"
proof (intro conjI impI)
  let ?L = "word_of_nat la :: uint16_t"
  show ua: "unat ?L = la mod 65536" by (simp add: unat_name_length)
  have "QuicSessionServerCacheSetState H Mem S A v P c m =
           QuicSessionServerCacheSetStateInternal H Mem S ?L (take (la mod 65536) A) v P c m"
    using set_internal_take[OF strlen_unat_le[OF na], where H = H]
    by (simp add: set_state_internal[OF na] ua)
  then show "QuicSessionServerCacheSetState H Mem S A v P c m =
           QuicSessionServerCacheSetStateInternal H Mem S (word_of_nat (la mod 65536))
             (take (la mod 65536) A) v P c m"
    by (simp add: word_of_nat_mod)
next
  assume a: "get_session m S = Some s \<and> cache_wf H (ServerCache s)"
  then show "QuicSessionServerCacheGetState H S A m =
              cache_get_on_identity S (word_of_nat (la mod 65536)) (take (la mod 65536) A) m"
    using get_state_on_identity[OF _ na] by blast
next
  assume a: "get_session m S = Some s \<and> cache_wf H (ServerCache s)"
    and cv: "cache_sec_valid m (ServerCache s)"
  from a cv show "\<exists>r m'. QuicSessionServerCacheGetState H S A m = Some (r, m') \<and>
                  (r \<noteq> None) =
                    (\<exists>e \<in> set (ServerCache s).
                       unat (ServerNameLength e) = la mod 65536 \<and>
                       ServerName e = take (la mod 65536) A)"
    using get_state_found_iff_unat[OF _ na] by blast
next
  assume b: "strlen B = Some lb \<and> lb = la mod 65536 \<and> take lb B = take lb A"
  then have nb: "strlen B = Some lb" and l: "lb = la mod 65536" and t: "take lb B = take lb A"
    by blast+
  from same_identity_same_calls[OF na nb l t]
  show "QuicSessionServerCacheGetState H S B m = QuicSessionServerCacheGetState H S A m"
    and "QuicSessionServerCacheSetState H Mem S B v P c m =
              QuicSessionServerCacheSetState H Mem S A v P c m"
    by blast+
qed


lemma strlen_cd: "strlen [99, 100, 0] = Some 2"
  by (simp add: strlen_def)

lemma cached_memory_session: "get_session cached_memory 4 = Some cached_session"
  by (simp add: cached_memory_def get_session_def)

lemma cached_session_lookup_ab:
  "QuicSessionServerCacheLookup cached_session 2 [97, 98, 0] 2 = None"
  by (simp add: lookup_find cached_session_def identity_matches_def)

lemma cached_session_lookup_cd:
  "QuicSessionServerCacheLookup cached_session 2 [99, 100, 0] 2 = Some 0"
  by (simp add: lookup_find cached_session_def identity_matches_def)

text \<open>
  An instance: \<open>ab\<close> and \<open>cd\<close> collide under the example hash; after setting \<open>ab\<close>, the
  lookup of \<open>cd\<close> still returns what was cached for \<open>cd\<close>.
\<close>

theorem cache_identities_do_not_interfere_witness:
  "get_session cached_memory 4 = Some cached_session \<and>
   strlen [97, 98, 0] = Some 2 \<and> strlen [99, 100, 0] = Some 2 \<and>
   (word_of_nat 2 :: uint16_t, take (2 mod 65536) [97, 98, 0 :: uint8_t]) \<noteq>
     (word_of_nat 2, take (2 mod 65536) [99, 100, 0]) \<and>
   example_hash (take (2 mod 65536) [97, 98, 0]) = example_hash (take (2 mod 65536) [99, 100, 0]) \<and>
   (\<exists>m1. QuicSessionServerCacheSetState example_hash (Some (example_block None)) 4 [97, 98, 0] 1 7
           (Some 5) cached_memory = Some m1 \<and>
      map_option fst (QuicSessionServerCacheGetState example_hash 4 [99, 100, 0] m1) =
        Some (Some (2, 9, Some 5)))"
proof -
  have d: "(word_of_nat 2 :: uint16_t, take (2 mod 65536) [97, 98, 0 :: uint8_t]) \<noteq>
     (word_of_nat 2, take (2 mod 65536) [99, 100, 0])" by simp
  have c: "example_hash (take (2 mod 65536) [97, 98, 0]) =
           example_hash (take (2 mod 65536) [99, 100, 0])"
    by (simp add: example_hash_def)
  have l: "unat (word_of_nat 2 :: uint16_t) \<le> length [97, 98, 0 :: uint8_t]" by simp
  have f: "QuicSessionServerCacheLookup cached_session (word_of_nat 2) [97, 98, 0]
             (example_hash (take (unat (word_of_nat 2 :: uint16_t)) [97, 98, 0])) = None"
    using cached_session_lookup_ab by (simp add: example_hash_def)
  have v: "sec_valid cached_memory (Some 5)"
    by (simp add: sec_valid_def cached_memory_def get_sec_config_def)
  from set_internal_new[where H = example_hash and Block = "example_block None" and v = 1 and P = 7,
      OF cached_memory_session l f v]
  obtain m1 where m1: "QuicSessionServerCacheSetState example_hash (Some (example_block None)) 4
      [97, 98, 0] 1 7 (Some 5) cached_memory = Some m1"
    by (auto simp: set_state_internal[OF strlen_ab])
  have g: "map_option fst (QuicSessionServerCacheGetState example_hash 4 [99, 100, 0] cached_memory) =
        Some (Some (2, 9, Some 5))"
    using cached_session_lookup_cd
    by (simp add: get_state_answer[OF cached_memory_session strlen_cd] example_hash_def)
       (simp add: cached_session_def sec_valid_def cached_memory_def get_sec_config_def)
  from cache_identities_do_not_interfere[where H = example_hash,
      OF cached_memory_session strlen_ab strlen_cd d c m1]
  have "map_option fst (QuicSessionServerCacheGetState example_hash 4 [99, 100, 0] m1) =
        Some (Some (2, 9, Some 5))"
    using g by simp
  with m1 cached_memory_session strlen_ab strlen_cd d c show ?thesis by blast
qed

text \<open>
  An instance: the entry for \<open>cd\<close> is found and its configuration goes from two
  references to three.
\<close>

theorem cache_get_found_iff_witness:
  "get_session cached_memory 4 = Some cached_session \<and> strlen [99, 100, 0] = Some 2 \<and>
   cache_wf example_hash (ServerCache cached_session) \<and>
   cache_sec_valid cached_memory (ServerCache cached_session) \<and>
   QuicSessionServerCacheGetState example_hash 4 [99, 100, 0] cached_memory =
     Some (Some (2, 9, Some 5), cached_memory(5 \<mapsto> SecConfigObj 3)) \<and>
   (\<exists>r m'. QuicSessionServerCacheGetState example_hash 4 [99, 100, 0] cached_memory = Some (r, m') \<and>
      r \<noteq> None)"
proof -
  have w: "cache_wf example_hash (ServerCache cached_session)"
    by (simp add: cache_wf_def cached_session_def example_hash_def)
  have v: "cache_sec_valid cached_memory (ServerCache cached_session)"
    by (simp add: cache_sec_valid_def cached_session_def sec_valid_def cached_memory_def
        get_sec_config_def)
  have e: "\<exists>e \<in> set (ServerCache cached_session).
      ServerNameLength e = word_of_nat 2 \<and> ServerName e = take (2 mod 65536) [99, 100, 0]"
    by (simp add: cached_session_def)
  have g: "QuicSessionServerCacheGetState example_hash 4 [99, 100, 0] cached_memory =
     Some (Some (2, 9, Some 5), cached_memory(5 \<mapsto> SecConfigObj 3))"
    using cached_session_lookup_cd
    by (simp add: get_state_eq[OF cached_memory_session strlen_cd] example_hash_def)
       (simp add: cached_session_def cached_memory_def get_sec_config_def)
  from cache_get_found_iff[where H = example_hash, OF cached_memory_session strlen_cd w v] e
  have "\<exists>r m'. QuicSessionServerCacheGetState example_hash 4 [99, 100, 0] cached_memory = Some (r, m') \<and>
      r \<noteq> None" by blast
  with cached_memory_session strlen_cd w v g show ?thesis by blast
qed

lemma strlen_long_name: "strlen long_name = Some 65537"
proof -
  have "takeWhile (\<lambda>c. c \<noteq> 0) long_name = replicate 65536 97 @ [98 :: uint8_t]"
    unfolding long_name_def by (subst takeWhile_append2) simp_all
  then show ?thesis by (simp add: strlen_def) (simp add: long_name_def)
qed

lemma aliased_memory_session: "get_session aliased_memory 4 = Some aliased_session"
  by (simp add: aliased_memory_def get_session_def)

text \<open>
  An instance: a name of 65537 bytes finds the entry cached for the one-byte name it
  starts with, and behaves as that name does.
\<close>

theorem name_length_truncated_witness:
  "strlen long_name = Some 65537 \<and>
   get_session aliased_memory 4 = Some aliased_session \<and>
   cache_wf example_hash (ServerCache aliased_session) \<and>
   cache_sec_valid aliased_memory (ServerCache aliased_session) \<and>
   strlen [97, 0] = Some 1 \<and> (1 :: nat) = 65537 mod 65536 \<and>
   take 1 [97, 0] = take 1 long_name \<and>
   QuicSessionServerCacheGetState example_hash 4 long_name aliased_memory =
     Some (Some (3, 8, None), aliased_memory) \<and>
   QuicSessionServerCacheGetState example_hash 4 [97, 0] aliased_memory =
     QuicSessionServerCacheGetState example_hash 4 long_name aliased_memory \<and>
   QuicSessionServerCacheSetState example_hash (Some (example_block None)) 4 [97, 0] 1 7 None
       aliased_memory =
     QuicSessionServerCacheSetState example_hash (Some (example_block None)) 4 long_name 1 7 None
       aliased_memory"
proof -
  have 1: "strlen [97, 0] = Some 1" by (simp add: strlen_def)
  have 2: "(1 :: nat) = 65537 mod 65536" by simp
  have 3: "take 1 [97, 0] = take 1 long_name"
    by (simp add: long_name_def)
  have w: "cache_wf example_hash (ServerCache aliased_session)"
    by (simp add: cache_wf_def aliased_session_def example_hash_def)
  have v: "cache_sec_valid aliased_memory (ServerCache aliased_session)"
    by (simp add: cache_sec_valid_def aliased_session_def sec_valid_def)
  have t: "take (65537 mod 65536) long_name = [97]" by (simp add: long_name_def)
  have g: "cache_get_on_identity 4 (word_of_nat (65537 mod 65536)) [97] aliased_memory =
      Some (Some (3, 8, None), aliased_memory)"
    by (simp add: cache_get_on_identity_def aliased_memory_session)
       (simp add: aliased_session_def)
  from name_length_truncated[OF strlen_long_name, where H = example_hash and S = 4
      and m = aliased_memory and s = aliased_session and B = "[97, 0]" and lb = 1
      and Mem = "Some (example_block None)" and v = 1 and P = 7 and c = None]
    strlen_long_name aliased_memory_session w v 1 2 3 g
  show ?thesis unfolding t by simp
qed

subsection \<open>Session lifecycle and membership\<close>

text \<open>
  Claim C9, as the source has it. A null registration handle, a handle of another type,
  or a null output location gives \<open>QUIC_STATUS_INVALID_PARAMETER\<close>; a failed allocation
  gives \<open>QUIC_STATUS_OUT_OF_MEMORY\<close>; in both cases nothing is written and the memory is
  as before. Otherwise the call succeeds: the new block holds an initialised session
  owned by the registration and is appended to the registration's sessions.
\<close>

theorem session_open_outcomes:
  "(MsQuicSessionOpen b Mem None Context NewSession m =
      Some (QUIC_STATUS_INVALID_PARAMETER, None, m)) \<and>
   (Handle_Type m r = Some t \<and> (t \<noteq> QUIC_HANDLE_TYPE_REGISTRATION \<or> NewSession = None) \<longrightarrow>
      MsQuicSessionOpen b Mem (Some r) Context NewSession m =
        Some (QUIC_STATUS_INVALID_PARAMETER, None, m)) \<and>
   (get_registration m r = Some reg \<and> NewSession \<noteq> None \<longrightarrow>
      MsQuicSessionOpen b None (Some r) Context NewSession m =
        Some (QUIC_STATUS_OUT_OF_MEMORY, None, m)) \<and>
   (get_registration m r = Some reg \<and> NewSession \<noteq> None \<and> m a = None \<longrightarrow>
      MsQuicSessionOpen b (Some a) (Some r) Context NewSession m =
        Some (QUIC_STATUS_SUCCESS, Some a,
              m(a \<mapsto> SessionObj (new_session (Some r) Context),
                r \<mapsto> RegistrationObj (reg\<lparr>Sessions := Sessions reg @ [a]\<rparr>))))"
  by (auto simp: MsQuicSessionOpen_def MsQuicSessionOpen_Error_def QuicSessionAlloc_def
      QUIC_FAILED_def Handle_Type_def get_registration_def get_session_def new_session_def
      QuicRundownInitialize_def QuicListInsertTail_def
      split: option.splits object.splits)


lemma close_tail:
  assumes "get_session m1 h = Some s"
  shows "(case QuicRundownReleaseAndWait (Rundown s) of
            (Drained, rd) \<Rightarrow>
              let m2 = m1(h \<mapsto> SessionObj (s\<lparr>Rundown := rd\<rparr>)) in
              if Drained
              then do { m3 \<leftarrow> MsQuicSessionFree b h m2; Some (Returned m3) }
              else Some (Waiting m2)) = release_wait_free b h s m1"
  by (auto simp: QuicRundownReleaseAndWait_def release_wait_free_def Let_def MsQuicSessionFree_def
      get_session_def QUIC_TEL_ASSERT_def QuicListIsEmpty_def)

lemma silent_in_range: "\<not> (0 :: uint64_t) > QUIC_UINT62_MAX"
  by simp

text \<open>
  Claim C8. Closing a session without registration is the end of close run on the memory
  of a silent shutdown broadcast with error code 0: every member connection has gone
  through the broadcast before the guard is released. Closing a session with a
  registration is the end of close run on the memory in which the session is taken out of
  the registration's sessions; no connection is changed.
\<close>

theorem close_unowned_broadcasts_owned_unlinks:
  assumes s: "get_session m h = Some s"
  shows "(Registration s = None \<and> members_valid m (Connections s) \<longrightarrow>
            MsQuicSessionClose b (Some h) m =
              release_wait_free b h s
                (broadcast (Connections s) QUIC_CONNECTION_SHUTDOWN_FLAG_SILENT 0 m) \<and>
            (\<forall>out c. MsQuicSessionClose b (Some h) m = Some out \<longrightarrow>
               get_connection (close_memory out) c =
                 map_option (\<lambda>k. if c \<in> set (Connections s)
                                  then shutdown_connection QUIC_CONNECTION_SHUTDOWN_FLAG_SILENT 0 k
                                  else k)
                   (get_connection m c))) \<and>
         (Registration s = Some r \<and> get_registration m r = Some reg \<and> h \<in> set (Sessions reg) \<longrightarrow>
            MsQuicSessionClose b (Some h) m =
              release_wait_free b h s
                (m(r \<mapsto> RegistrationObj (reg\<lparr>Sessions := remove1 h (Sessions reg)\<rparr>))) \<and>
            (\<forall>out c. MsQuicSessionClose b (Some h) m = Some out \<longrightarrow>
               get_connection (close_memory out) c = get_connection m c))"
proof (intro conjI impI)
  assume a: "Registration s = None \<and> members_valid m (Connections s)"
  let ?m1 = "broadcast (Connections s) QUIC_CONNECTION_SHUTDOWN_FLAG_SILENT 0 m"
  have sh: "MsQuicSessionShutdown b (Some h) QUIC_CONNECTION_SHUTDOWN_FLAG_SILENT 0 m = Some ?m1"
    using a by (simp add: MsQuicSessionShutdown_eq[OF s])
  have s1: "get_session ?m1 h = Some s" by (simp add: broadcast_session s)
  have t: "Handle_Type m h = Some QUIC_HANDLE_TYPE_SESSION"
    using s by (auto simp: Handle_Type_def get_session_def split: option.splits object.splits)
  show e: "MsQuicSessionClose b (Some h) m = release_wait_free b h s ?m1"
    using a by (simp add: MsQuicSessionClose_def t QUIC_TEL_ASSERT_def s sh s1 close_tail[OF s1])
  show "\<forall>out c. MsQuicSessionClose b (Some h) m = Some out \<longrightarrow>
               get_connection (close_memory out) c =
                 map_option (\<lambda>k. if c \<in> set (Connections s)
                                  then shutdown_connection QUIC_CONNECTION_SHUTDOWN_FLAG_SILENT 0 k
                                  else k)
                   (get_connection m c)"
  proof (intro allI impI)
    fix out c
    assume "MsQuicSessionClose b (Some h) m = Some out"
    with e have "release_wait_free b h s ?m1 = Some out" by simp
    then have "get_connection (close_memory out) c = get_connection ?m1 c"
      using s1 by (auto simp: release_wait_free_def close_memory_def get_connection_def
          get_session_def split: if_splits option.splits object.splits)
    then show "get_connection (close_memory out) c =
                 map_option (\<lambda>k. if c \<in> set (Connections s)
                                  then shutdown_connection QUIC_CONNECTION_SHUTDOWN_FLAG_SILENT 0 k
                                  else k)
                   (get_connection m c)"
      by (simp add: broadcast_connection)
  qed
next
  assume a: "Registration s = Some r \<and> get_registration m r = Some reg \<and> h \<in> set (Sessions reg)"
  let ?m1 = "m(r \<mapsto> RegistrationObj (reg\<lparr>Sessions := remove1 h (Sessions reg)\<rparr>))"
  have s1: "get_session ?m1 h = Some s"
    using s a by (auto simp: get_session_def get_registration_def split: option.splits object.splits)
  have t: "Handle_Type m h = Some QUIC_HANDLE_TYPE_SESSION"
    using s by (auto simp: Handle_Type_def get_session_def split: option.splits object.splits)
  show e: "MsQuicSessionClose b (Some h) m = release_wait_free b h s ?m1"
    using a by (simp add: MsQuicSessionClose_def t QUIC_TEL_ASSERT_def s s1 close_tail[OF s1]
        QuicListEntryRemove_def)
  show "\<forall>out c. MsQuicSessionClose b (Some h) m = Some out \<longrightarrow>
               get_connection (close_memory out) c = get_connection m c"
  proof (intro allI impI)
    fix out c
    assume "MsQuicSessionClose b (Some h) m = Some out"
    with e have "release_wait_free b h s ?m1 = Some out" by simp
    then show "get_connection (close_memory out) c = get_connection m c"
      using s a by (auto simp: release_wait_free_def close_memory_def get_connection_def
          get_session_def get_registration_def split: if_splits option.splits object.splits)
  qed
qed


lemma get_session_Some: "get_session m a = Some s \<longleftrightarrow> m a = Some (SessionObj s)"
  by (auto simp: get_session_def split: option.splits object.splits)

lemma get_connection_Some: "get_connection m a = Some k \<longleftrightarrow> m a = Some (ConnectionObj k)"
  by (auto simp: get_connection_def split: option.splits object.splits)

lemma get_registration_Some:
  "get_registration m a = Some r \<longleftrightarrow> m a = Some (RegistrationObj r)"
  by (auto simp: get_registration_def split: option.splits object.splits)

lemma int_length_remove1:
  assumes "c \<in> set l"
  shows "int (length (remove1 c l)) = int (length l) - 1"
proof -
  from assms have "0 < length l" by (rule length_pos_if_in_set)
  moreover have "length (remove1 c l) = length l - 1"
    using assms by (simp add: length_remove1)
  ultimately show ?thesis by linarith
qed

lemma unregister_step:
  assumes inv: "registry_inv m S cs" and c: "c \<in> set cs" and s: "get_session m S = Some s"
  shows "\<exists>m' s'. QuicSessionUnregisterConnection c m = Some m' \<and> get_session m' S = Some s' \<and>
           registry_inv m' S cs \<and> Connections s' = remove1 c (Connections s)"
proof -
  from inv s have nd: "\<not> Draining (Rundown s)"
    and rc: "RefCount (Rundown s) = 1 + int (length (Connections s))"
    and d: "distinct (Connections s)"
    and rg: "case Registration s of None \<Rightarrow> True | Some r \<Rightarrow> get_registration m r \<noteq> None"
    and br: "\<forall>x \<in> set cs. back_reference_ok m S (Connections s) x"
    by (simp_all add: registry_inv_def list_all_iff)
  from br c obtain k where k: "get_connection m c = Some k"
    and ks: "Session k = (if c \<in> set (Connections s) then Some S else None)"
    by (auto simp: back_reference_ok_def split: option.splits)
  show ?thesis
  proof (cases "c \<in> set (Connections s)")
    case False
    with k ks have "QuicSessionUnregisterConnection c m = Some m"
      by (simp add: QuicSessionUnregisterConnection_def)
    with inv s False show ?thesis by (simp add: remove1_idem)
  next
    case True
    let ?s' = "s\<lparr>Connections := remove1 c (Connections s),
                  Rundown := QuicRundownRelease (Rundown s)\<rparr>"
    let ?m' = "m(c \<mapsto> ConnectionObj (k\<lparr>Session := None\<rparr>), S \<mapsto> SessionObj ?s')"
    have ne: "S \<noteq> c" using s k by (auto simp: get_session_Some get_connection_Some)
    have u: "QuicSessionUnregisterConnection c m = Some ?m'"
      using k ks True s ne
      by (simp add: QuicSessionUnregisterConnection_def QuicListEntryRemove_def get_session_def
          get_session_Some)
    have s': "get_session ?m' S = Some ?s'" by (simp add: get_session_def)
    have len: "int (length (remove1 c (Connections s))) = int (length (Connections s)) - 1"
      using True by (rule int_length_remove1)
    have rg': "case Registration ?s' of None \<Rightarrow> True | Some r \<Rightarrow> get_registration ?m' r \<noteq> None"
    proof (cases "Registration s")
      case None
      then show ?thesis by simp
    next
      case (Some r)
      with rg obtain reg where "get_registration m r = Some reg" by auto
      with s k have "m r = Some (RegistrationObj reg)" and "r \<noteq> S" and "r \<noteq> c"
        by (auto simp: get_registration_Some get_session_Some get_connection_Some)
      with Some show ?thesis by (simp add: get_registration_def)
    qed
    have br': "back_reference_ok ?m' S (Connections ?s') x" if "x \<in> set cs" for x
    proof -
      from br that obtain kx where kx: "get_connection m x = Some kx"
        and kxs: "Session kx = (if x \<in> set (Connections s) then Some S else None)"
        by (auto simp: back_reference_ok_def split: option.splits)
      have xs: "x \<noteq> S" using kx s by (auto simp: get_session_Some get_connection_Some)
      show ?thesis
      proof (cases "x = c")
        case True
        with xs d show ?thesis
          by (simp add: back_reference_ok_def get_connection_def)
      next
        case False
        with xs kx kxs show ?thesis
          by (simp add: back_reference_ok_def get_connection_def)
      qed
    qed
    have "registry_inv ?m' S cs"
      unfolding registry_inv_def s' using nd rc d len rg' br'
      by (simp add: list_all_iff QuicRundownRelease_def)
    with u s' show ?thesis by simp
  qed
qed


lemma register_effect:
  assumes u: "QuicSessionUnregisterConnection c m = Some m1"
    and s1: "m1 S = Some (SessionObj s1)" and k1: "m1 c = Some (ConnectionObj k1)"
    and nd: "\<not> Draining (Rundown s1)"
    and rg: "case Registration s1 of None \<Rightarrow> True | Some r \<Rightarrow> get_registration m1 r \<noteq> None"
  shows "\<exists>m5 k5. QuicSessionRegisterConnection b S c m = Some m5 \<and>
           m5 S = Some (SessionObj (s1\<lparr>Rundown := (Rundown s1)\<lparr>RefCount := RefCount (Rundown s1) + 1\<rparr>,
                                       Connections := Connections s1 @ [c]\<rparr>)) \<and>
           m5 c = Some (ConnectionObj k5) \<and> Session k5 = Some S \<and>
           (\<forall>x. x \<noteq> c \<longrightarrow> x \<noteq> S \<longrightarrow> Some x \<noteq> Registration s1 \<longrightarrow> m5 x = m1 x) \<and>
           (\<forall>r. Registration s1 = Some r \<longrightarrow> get_registration m5 r \<noteq> None)"
proof -
  have ne: "S \<noteq> c" using s1 k1 by auto
  show ?thesis
  proof (cases "Registration s1")
    case None
    with u s1 k1 nd ne show ?thesis
      by (simp add: QuicSessionRegisterConnection_def get_connection_def get_session_def
          QuicRundownAcquire_def QUIC_DBG_ASSERT_def QuicListInsertTail_def)
  next
    case (Some r)
    with rg obtain reg where reg: "m1 r = Some (RegistrationObj reg)"
      by (auto simp: get_registration_Some)
    have nr: "r \<noteq> c" "r \<noteq> S" using reg s1 k1 by auto
    from Some u s1 k1 nd ne reg nr show ?thesis
      by (simp add: QuicSessionRegisterConnection_def get_connection_def get_session_def
          get_registration_def QuicConnApplySettings_def
          QuicRundownAcquire_def QUIC_DBG_ASSERT_def QuicListInsertTail_def)
  qed
qed


lemma register_step:
  assumes inv: "registry_inv m S cs" and c: "c \<in> set cs" and s: "get_session m S = Some s"
  shows "\<exists>m' s'. QuicSessionRegisterConnection b S c m = Some m' \<and> get_session m' S = Some s' \<and>
           registry_inv m' S cs \<and> Connections s' = remove1 c (Connections s) @ [c]"
proof -
  from unregister_step[OF inv c s] obtain m1 s1 where
    u: "QuicSessionUnregisterConnection c m = Some m1" and s1: "get_session m1 S = Some s1"
    and inv1: "registry_inv m1 S cs" and l1: "Connections s1 = remove1 c (Connections s)"
    by blast
  from inv s have d0: "distinct (Connections s)" by (simp add: registry_inv_def)
  from inv1 s1 have nd: "\<not> Draining (Rundown s1)"
    and rc: "RefCount (Rundown s1) = 1 + int (length (Connections s1))"
    and d: "distinct (Connections s1)"
    and rg: "case Registration s1 of None \<Rightarrow> True | Some r \<Rightarrow> get_registration m1 r \<noteq> None"
    and br: "\<forall>x \<in> set cs. back_reference_ok m1 S (Connections s1) x"
    by (simp_all add: registry_inv_def list_all_iff)
  have cn: "c \<notin> set (Connections s1)" using d0 l1 by simp
  from br c cn obtain k1 where k1: "m1 c = Some (ConnectionObj k1)"
    by (auto simp: back_reference_ok_def get_connection_Some split: option.splits)
  from s1 have s1': "m1 S = Some (SessionObj s1)" by (simp add: get_session_Some)
  let ?s5 = "s1\<lparr>Rundown := (Rundown s1)\<lparr>RefCount := RefCount (Rundown s1) + 1\<rparr>,
                 Connections := Connections s1 @ [c]\<rparr>"
  from register_effect[OF u s1' k1 nd rg, of b] obtain m5 k5 where
    r: "QuicSessionRegisterConnection b S c m = Some m5"
    and s5: "m5 S = Some (SessionObj ?s5)"
    and k5: "m5 c = Some (ConnectionObj k5)" "Session k5 = Some S"
    and fr: "\<forall>x. x \<noteq> c \<longrightarrow> x \<noteq> S \<longrightarrow> Some x \<noteq> Registration s1 \<longrightarrow> m5 x = m1 x"
    and rg5: "\<forall>r. Registration s1 = Some r \<longrightarrow> get_registration m5 r \<noteq> None"
    by blast
  have gs5: "get_session m5 S = Some ?s5" using s5 by (simp add: get_session_Some)
  have br5: "back_reference_ok m5 S (Connections ?s5) x" if "x \<in> set cs" for x
  proof (cases "x = c")
    case True
    with k5 show ?thesis by (simp add: back_reference_ok_def get_connection_def)
  next
    case False
    from br that obtain kx where kx: "m1 x = Some (ConnectionObj kx)"
      and kxs: "Session kx = (if x \<in> set (Connections s1) then Some S else None)"
      by (auto simp: back_reference_ok_def get_connection_Some split: option.splits)
    have xs: "x \<noteq> S" using kx s1' by auto
    have xr: "Some x \<noteq> Registration s1"
    proof
      assume "Some x = Registration s1"
      with rg have "get_registration m1 x \<noteq> None" by (auto split: option.splits)
      with kx show False by (simp add: get_registration_def)
    qed
    from fr False xs xr have "m5 x = m1 x" by blast
    with kx kxs False show ?thesis by (simp add: back_reference_ok_def get_connection_def)
  qed
  have rg5': "case Registration ?s5 of None \<Rightarrow> True | Some r \<Rightarrow> get_registration m5 r \<noteq> None"
    using rg5 by (auto split: option.splits)
  have "registry_inv m5 S cs"
    unfolding registry_inv_def gs5 using nd rc d cn rg5' br5
    by (simp add: list_all_iff)
  with r gs5 l1 show ?thesis by simp
qed

lemma registry_calls_correct:
  assumes "registry_inv m S cs" and "list_all (\<lambda>call. connection_of call \<in> set cs) calls"
    and "get_session m S = Some s"
  shows "\<exists>m' s'. registry_calls b S calls m = Some m' \<and> get_session m' S = Some s' \<and>
           registry_inv m' S cs \<and> Connections s' = members_after (Connections s) calls \<and>
           int (length (Connections s')) =
             int (length (Connections s)) + int (registrations calls) -
             int (unregistrations (Connections s) calls)"
  using assms
proof (induction calls arbitrary: m s)
  case Nil
  then show ?case by simp
next
  case (Cons call calls)
  show ?case
  proof (cases call)
    case (Register c)
    with Cons.prems have c: "c \<in> set cs" by simp
    from register_step[OF Cons.prems(1) c Cons.prems(3), of b] obtain m1 s1 where
      r: "QuicSessionRegisterConnection b S c m = Some m1" and s1: "get_session m1 S = Some s1"
      and inv1: "registry_inv m1 S cs" and l1: "Connections s1 = remove1 c (Connections s) @ [c]"
      by blast
    from Cons.prems have rest: "list_all (\<lambda>call. connection_of call \<in> set cs) calls" by simp
    from Cons.IH[OF inv1 rest s1] obtain m' s' where
      1: "registry_calls b S calls m1 = Some m'" and 2: "get_session m' S = Some s'"
      and 3: "registry_inv m' S cs" and 4: "Connections s' = members_after (Connections s1) calls"
      and 5: "int (length (Connections s')) =
             int (length (Connections s1)) + int (registrations calls) -
             int (unregistrations (Connections s1) calls)"
      by blast
    have len: "int (length (Connections s1)) =
        int (length (Connections s)) + 1 - (if c \<in> set (Connections s) then 1 else 0)"
    proof (cases "c \<in> set (Connections s)")
      case True
      then show ?thesis using l1 by (simp add: int_length_remove1)
    next
      case False
      then show ?thesis using l1 by (simp add: remove1_idem)
    qed
    from 1 2 3 4 5 r l1 len Register show ?thesis by simp
  next
    case (Unregister c)
    with Cons.prems have c: "c \<in> set cs" by simp
    from unregister_step[OF Cons.prems(1) c Cons.prems(3)] obtain m1 s1 where
      r: "QuicSessionUnregisterConnection c m = Some m1" and s1: "get_session m1 S = Some s1"
      and inv1: "registry_inv m1 S cs" and l1: "Connections s1 = remove1 c (Connections s)"
      by blast
    from Cons.prems have rest: "list_all (\<lambda>call. connection_of call \<in> set cs) calls" by simp
    from Cons.IH[OF inv1 rest s1] obtain m' s' where
      1: "registry_calls b S calls m1 = Some m'" and 2: "get_session m' S = Some s'"
      and 3: "registry_inv m' S cs" and 4: "Connections s' = members_after (Connections s1) calls"
      and 5: "int (length (Connections s')) =
             int (length (Connections s1)) + int (registrations calls) -
             int (unregistrations (Connections s1) calls)"
      by blast
    have len: "int (length (Connections s1)) =
        int (length (Connections s)) - (if c \<in> set (Connections s) then 1 else 0)"
    proof (cases "c \<in> set (Connections s)")
      case True
      then show ?thesis using l1 by (simp add: int_length_remove1)
    next
      case False
      then show ?thesis using l1 by (simp add: remove1_idem)
    qed
    from 1 2 3 4 5 r l1 len Unregister show ?thesis by simp
  qed
qed


text \<open>
  Claim C2. From a state of a session that accepts registrations, every sequence of
  register and unregister calls on the connections \<open>cs\<close> completes; the membership is the
  one the calls should produce; its size is the size before plus the registrations minus
  the unregistrations that took effect; the guard count is one plus the number of
  members; and a connection is a member exactly when its back-reference names the session.
\<close>

theorem registry_membership_and_guard:
  assumes "registry_inv m S cs" and "list_all (\<lambda>call. connection_of call \<in> set cs) calls"
    and "get_session m S = Some s"
  shows "\<exists>m' s'. registry_calls b S calls m = Some m' \<and> get_session m' S = Some s' \<and>
           Connections s' = members_after (Connections s) calls \<and>
           int (length (Connections s')) =
             int (length (Connections s)) + int (registrations calls) -
             int (unregistrations (Connections s) calls) \<and>
           RefCount (Rundown s') = 1 + int (length (Connections s')) \<and>
           (\<forall>c \<in> set cs. (c \<in> set (Connections s')) =
              (\<exists>k. get_connection m' c = Some k \<and> Session k = Some S)) \<and>
           registry_inv m' S cs"
proof -
  from registry_calls_correct[OF assms, of b] obtain m' s' where
    1: "registry_calls b S calls m = Some m'" and 2: "get_session m' S = Some s'"
    and 3: "registry_inv m' S cs" and 4: "Connections s' = members_after (Connections s) calls"
    and 5: "int (length (Connections s')) =
             int (length (Connections s)) + int (registrations calls) -
             int (unregistrations (Connections s) calls)"
    by blast
  from 3 2 have rc: "RefCount (Rundown s') = 1 + int (length (Connections s'))"
    and br: "\<forall>x \<in> set cs. back_reference_ok m' S (Connections s') x"
    by (simp_all add: registry_inv_def list_all_iff)
  have "(c \<in> set (Connections s')) = (\<exists>k. get_connection m' c = Some k \<and> Session k = Some S)"
    if "c \<in> set cs" for c
    using br that by (auto simp: back_reference_ok_def split: option.splits if_splits)
  with 1 2 3 4 5 rc show ?thesis by blast
qed

lemma owned_memory_session: "get_session owned_memory 7 = Some owned_session"
  by (simp add: owned_memory_def get_session_def)

text \<open>
  An instance: connection 9 joins, connection 8 leaves, 9 registers again, 8 unregisters
  again.
\<close>

theorem registry_membership_and_guard_witness:
  "registry_inv owned_memory 7 [8, 9] \<and>
   list_all (\<lambda>call. connection_of call \<in> set [8, 9])
     [Register 9, Unregister 8, Register 9, Unregister 8] \<and>
   get_session owned_memory 7 = Some owned_session \<and>
   (\<exists>m' s'. registry_calls example_build 7 [Register 9, Unregister 8, Register 9, Unregister 8]
               owned_memory = Some m' \<and>
      get_session m' 7 = Some s' \<and> Connections s' = [9] \<and> RefCount (Rundown s') = 2)"
proof -
  have 1: "registry_inv owned_memory 7 [8, 9]"
    by (simp add: registry_inv_def owned_memory_session)
       (simp add: owned_session_def owned_memory_def get_registration_def back_reference_ok_def
          get_connection_def example_connection_def)
  have 2: "list_all (\<lambda>call. connection_of call \<in> set [8, 9])
     [Register 9, Unregister 8, Register 9, Unregister 8]" by simp
  have 3: "members_after (Connections owned_session)
             [Register 9, Unregister 8, Register 9, Unregister 8] = [9]"
    by (simp add: owned_session_def)
  from registry_membership_and_guard[OF 1 2 owned_memory_session, of example_build]
  obtain m' s' where
    "registry_calls example_build 7 [Register 9, Unregister 8, Register 9, Unregister 8]
               owned_memory = Some m'" "get_session m' 7 = Some s'"
    "Connections s' = [9]" "RefCount (Rundown s') = 1 + int (length (Connections s'))"
    unfolding 3 by blast
  then have "\<exists>m' s'. registry_calls example_build 7 [Register 9, Unregister 8, Register 9, Unregister 8]
               owned_memory = Some m' \<and>
      get_session m' 7 = Some s' \<and> Connections s' = [9] \<and> RefCount (Rundown s') = 2"
    by auto
  with 1 2 owned_memory_session show ?thesis by blast
qed


lemma owned_memory_registration: "get_registration owned_memory 6 = Some example_registration"
  by (simp add: owned_memory_def get_registration_def)

text \<open>
  Instances: a session handle passed as registration, a failed allocation, and a success.
\<close>

theorem session_open_outcomes_witness:
  "Handle_Type owned_memory 7 = Some QUIC_HANDLE_TYPE_SESSION \<and>
   get_registration owned_memory 6 = Some example_registration \<and> owned_memory 10 = None \<and>
   MsQuicSessionOpen example_build (Some 10) (Some 7) None (Some 0) owned_memory =
     Some (QUIC_STATUS_INVALID_PARAMETER, None, owned_memory) \<and>
   MsQuicSessionOpen example_build None (Some 6) None (Some 0) owned_memory =
     Some (QUIC_STATUS_OUT_OF_MEMORY, None, owned_memory) \<and>
   MsQuicSessionOpen example_build (Some 10) (Some 6) None (Some 0) owned_memory =
     Some (QUIC_STATUS_SUCCESS, Some 10,
           owned_memory(10 \<mapsto> SessionObj (new_session (Some 6) None),
             6 \<mapsto> RegistrationObj (example_registration\<lparr>Sessions := [7, 10]\<rparr>)))"
proof -
  have 1: "Handle_Type owned_memory 7 = Some QUIC_HANDLE_TYPE_SESSION"
    by (simp add: owned_memory_def Handle_Type_def)
  have 2: "owned_memory 10 = None" by (simp add: owned_memory_def)
  have 3: "Sessions example_registration @ [10] = [7, 10]"
    by (simp add: example_registration_def)
  from session_open_outcomes[of example_build "Some 10" None "Some 0" owned_memory 7
      QUIC_HANDLE_TYPE_SESSION example_registration 10]
    session_open_outcomes[of example_build "Some 10" None "Some 0" owned_memory 6
      QUIC_HANDLE_TYPE_REGISTRATION example_registration 10]
    1 2 3 owned_memory_registration
  show ?thesis by simp
qed

text \<open>
  The claim as the spec states it lets every call with a well-formed registration handle
  and a successful allocation return a session. With a null output location the call
  fails with \<open>QUIC_STATUS_INVALID_PARAMETER\<close> instead.
\<close>

theorem session_open_outcomes_counterexample:
  "get_registration owned_memory 6 = Some example_registration \<and> owned_memory 10 = None \<and>
   MsQuicSessionOpen example_build (Some 10) (Some 6) None None owned_memory =
     Some (QUIC_STATUS_INVALID_PARAMETER, None, owned_memory)"
  by (simp add: owned_memory_registration)
     (simp add: MsQuicSessionOpen_def MsQuicSessionOpen_Error_def Handle_Type_def owned_memory_def)

lemma unowned_memory_session: "get_session unowned_memory 1 = Some unowned_session"
  by (simp add: get_session_def unowned_memory_def)

text \<open>
  Instances: the ownerless session with its two connections, and the owned session.
\<close>

theorem close_unowned_broadcasts_owned_unlinks_witness:
  "get_session unowned_memory 1 = Some unowned_session \<and>
   Registration unowned_session = None \<and>
   members_valid unowned_memory (Connections unowned_session) \<and>
   (\<exists>m'. MsQuicSessionClose example_build (Some 1) unowned_memory = Some (Waiting m') \<and>
      get_connection m' 2 =
        Some (shutdown_connection QUIC_CONNECTION_SHUTDOWN_FLAG_SILENT 0 (example_connection (Some 1))) \<and>
      map_option OperQ (get_connection m' 2) = Some [BackUpOper_ptr]) \<and>
   get_session owned_memory 7 = Some owned_session \<and>
   Registration owned_session = Some 6 \<and>
   get_registration owned_memory 6 = Some example_registration \<and>
   7 \<in> set (Sessions example_registration) \<and>
   (\<exists>m'. MsQuicSessionClose example_build (Some 7) owned_memory = Some (Waiting m') \<and>
      map_option Sessions (get_registration m' 6) = Some [] \<and>
      get_connection m' 8 = get_connection owned_memory 8)"
proof -
  have 1: "Registration unowned_session = None" by (simp add: unowned_session_def)
  have 2: "members_valid unowned_memory (Connections unowned_session)"
    by (simp add: members_valid_def unowned_session_def unowned_memory_def get_connection_def)
  have 3: "Registration owned_session = Some 6" by (simp add: owned_session_def)
  have 4: "7 \<in> set (Sessions example_registration)" by (simp add: example_registration_def)
  have 5: "RefCount (Rundown unowned_session) \<noteq> 1" "RefCount (Rundown owned_session) \<noteq> 1"
    by (simp_all add: unowned_session_def owned_session_def)
  have 6: "get_connection unowned_memory 2 = Some (example_connection (Some 1))"
    "2 \<in> set (Connections unowned_session)"
    by (simp_all add: unowned_memory_def get_connection_def unowned_session_def)
  have 7: "OperQ (shutdown_connection QUIC_CONNECTION_SHUTDOWN_FLAG_SILENT 0
             (example_connection (Some 1))) = [BackUpOper_ptr]"
    by (simp add: shutdown_connection_cases example_connection_def)
  from close_unowned_broadcasts_owned_unlinks[OF unowned_memory_session, where b = example_build]
    1 2 5 6 7
  have a: "\<exists>m'. MsQuicSessionClose example_build (Some 1) unowned_memory = Some (Waiting m') \<and>
      get_connection m' 2 =
        Some (shutdown_connection QUIC_CONNECTION_SHUTDOWN_FLAG_SILENT 0 (example_connection (Some 1))) \<and>
      map_option OperQ (get_connection m' 2) = Some [BackUpOper_ptr]"
    by (auto simp: release_wait_free_def close_memory_def)
  from close_unowned_broadcasts_owned_unlinks[OF owned_memory_session,
      where r = 6 and reg = example_registration and b = example_build]
    3 4 5 owned_memory_registration
  have b: "\<exists>m'. MsQuicSessionClose example_build (Some 7) owned_memory = Some (Waiting m') \<and>
      map_option Sessions (get_registration m' 6) = Some [] \<and>
      get_connection m' 8 = get_connection owned_memory 8"
    by (auto simp: release_wait_free_def close_memory_def get_registration_def
        example_registration_def)
  from a b unowned_memory_session owned_memory_session 1 2 3 4 owned_memory_registration
  show ?thesis by blast
qed

end
